theory Spec2Isabelle
  imports Complex_Main "HOL-Library.Word"
begin

unbundle bit_operations_syntax

section \<open>JavaScript values\<close>

text \<open>
  The services pass plain JavaScript objects around (scheme records parsed from JSON,
  scraped from HTML or written as literals). A value is one of the JSON-like shapes
  below or \<open>undefined\<close>; of the numbers only the integers occur as field values. A
  string is represented by the bytes of its UTF-8 encoding, so equality and
  concatenation of well-formed strings are those of the byte lists, and the empty
  string is the empty list.
\<close>

datatype jsval =
    JUndefined
  | JNull
  | JBool bool
  | JNum int
  | JStr string
  | JArr "jsval list"
  | JObj "(string \<times> jsval) list"

type_synonym jsobj = "(string \<times> jsval) list"

text \<open>A thrown exception. \<open>TypeError\<close> is what the engine raises for a call on
  \<open>undefined\<close> or a non-function; \<open>Error\<close> is \<open>new Error(msg)\<close> and every
  failure reported by a collaborator (network, file system, vector store).\<close>

datatype error = TypeError string | Error string

text \<open>Property access \<open>obj.k\<close>: an absent property reads as \<open>undefined\<close>.\<close>

definition js_get :: "jsobj \<Rightarrow> string \<Rightarrow> jsval" where
  "js_get obj k = (case map_of obj k of None \<Rightarrow> JUndefined | Some v \<Rightarrow> v)"

text \<open>Truthiness, as used by \<open>||\<close>, \<open>&&\<close> and \<open>if\<close>.\<close>

fun truthy :: "jsval \<Rightarrow> bool" where
  "truthy JUndefined = False"
| "truthy JNull = False"
| "truthy (JBool b) = b"
| "truthy (JNum n) = (n \<noteq> 0)"
| "truthy (JStr s) = (s \<noteq> [])"
| "truthy (JArr _) = True"
| "truthy (JObj _) = True"

definition js_or :: "jsval \<Rightarrow> jsval \<Rightarrow> jsval" where
  "js_or a d = (if truthy a then a else d)"

fun isArray :: "jsval \<Rightarrow> bool" where
  "isArray (JArr _) = True"
| "isArray _ = False"

fun is_string :: "jsval \<Rightarrow> bool" where
  "is_string (JStr _) = True"
| "is_string _ = False"

text \<open>
  The built-ins whose result depends on the Unicode tables or on number formatting are
  not re-implemented; they are the engine's, and every property below holds whatever
  functions they are: \<open>String.prototype.toLowerCase\<close>, \<open>String.prototype.trim\<close>,
  \<open>split(/\s+/)\<close>, the UTF-16 code units of a string (what \<open>split('')\<close> followed by
  \<open>charCodeAt(0)\<close> yields) and the conversion of a number to a string.
\<close>

record engine =
  to_lower :: "string \<Rightarrow> string"
  trim_ws :: "string \<Rightarrow> string"
  split_ws :: "string \<Rightarrow> string list"
  char_codes :: "string \<Rightarrow> nat list"
  num_text :: "int \<Rightarrow> string"

text \<open>The method call \<open>v.toLowerCase()\<close>: only a string has the method; on
  \<open>undefined\<close> and \<open>null\<close> the property read itself throws, on any other value
  the call of a missing method throws. Both are a \<open>TypeError\<close>.\<close>

fun toLowerCase :: "engine \<Rightarrow> jsval \<Rightarrow> error + string" where
  "toLowerCase U (JStr s) = Inr (to_lower U s)"
| "toLowerCase U JUndefined = Inl (TypeError ''Cannot read properties of undefined (reading toLowerCase)'')"
| "toLowerCase U JNull = Inl (TypeError ''Cannot read properties of null (reading toLowerCase)'')"
| "toLowerCase U _ = Inl (TypeError ''toLowerCase is not a function'')"

text \<open>The method call \<open>v.trim()\<close>, in the same way.\<close>

fun trim :: "engine \<Rightarrow> jsval \<Rightarrow> error + string" where
  "trim U (JStr s) = Inr (trim_ws U s)"
| "trim U JUndefined = Inl (TypeError ''Cannot read properties of undefined (reading trim)'')"
| "trim U JNull = Inl (TypeError ''Cannot read properties of null (reading trim)'')"
| "trim U _ = Inl (TypeError ''trim is not a function'')"


section \<open>Double-precision numbers\<close>

text \<open>
  Embedding components, scores and distances are JavaScript numbers, that is IEEE 754
  binary64 values: a finite value (a real that is a multiple of a power of two within
  the format's range), an infinity, or \<open>NaN\<close>. The two zeros are not told apart; the
  sign of a zero never reaches a result of the functions modelled here.

  Every arithmetic operation returns the exact result rounded to the nearest
  representable value, ties to the even significand. \<open>round_double\<close> does this for a
  real: the unit in the last place is \<open>2^e\<close> with \<open>e = floor(log2 |r|) - 52\<close>, not below
  the subnormal \<open>2^-1074\<close>, and a result of magnitude \<open>2^1024\<close> or more is an infinity.
\<close>

datatype double = Fin real | PInf | NInf | NaN

definition round_half_even :: "real \<Rightarrow> int" where
  "round_half_even x =
     (let f = \<lfloor>x\<rfloor>
      in if x - of_int f < 1 / 2 then f
         else if 1 / 2 < x - of_int f then f + 1
         else if even f then f else f + 1)"

definition round_double :: "real \<Rightarrow> double" where
  "round_double r =
     (if r = 0 then Fin 0
      else (let e = max (- 1074) (\<lfloor>log 2 \<bar>r\<bar>\<rfloor> - 52);
                v = of_int (round_half_even (r / 2 powr of_int e)) * 2 powr of_int e
            in if 2 ^ 1024 \<le> \<bar>v\<bar> then (if 0 < r then PInf else NInf) else Fin v))"

definition is_neg :: "double \<Rightarrow> bool" where
  "is_neg a = (case a of Fin x \<Rightarrow> x < 0 | NInf \<Rightarrow> True | _ \<Rightarrow> False)"

fun dneg :: "double \<Rightarrow> double" where
  "dneg (Fin x) = Fin (- x)"
| "dneg PInf = NInf"
| "dneg NInf = PInf"
| "dneg NaN = NaN"

fun dadd :: "double \<Rightarrow> double \<Rightarrow> double" where
  "dadd (Fin x) (Fin y) = round_double (x + y)"
| "dadd NaN b = NaN"
| "dadd a NaN = NaN"
| "dadd PInf NInf = NaN"
| "dadd NInf PInf = NaN"
| "dadd PInf b = PInf"
| "dadd NInf b = NInf"
| "dadd (Fin x) b = b"

definition dsub :: "double \<Rightarrow> double \<Rightarrow> double" where
  "dsub a b = dadd a (dneg b)"

fun dmul :: "double \<Rightarrow> double \<Rightarrow> double" where
  "dmul (Fin x) (Fin y) = round_double (x * y)"
| "dmul NaN b = NaN"
| "dmul a NaN = NaN"
| "dmul a b =
     (if a = Fin 0 \<or> b = Fin 0 then NaN
      else if is_neg a = is_neg b then PInf else NInf)"

fun ddiv :: "double \<Rightarrow> double \<Rightarrow> double" where
  "ddiv (Fin x) (Fin y) =
     (if y = 0 then (if x = 0 then NaN else if x < 0 then NInf else PInf)
      else round_double (x / y))"
| "ddiv NaN b = NaN"
| "ddiv a NaN = NaN"
| "ddiv (Fin x) b = Fin 0"
| "ddiv a (Fin y) = (if is_neg a = (y < 0) then PInf else NInf)"
| "ddiv a b = NaN"

fun dsqrt :: "double \<Rightarrow> double" where
  "dsqrt (Fin x) = (if x < 0 then NaN else round_double (sqrt x))"
| "dsqrt PInf = PInf"
| "dsqrt NInf = NaN"
| "dsqrt NaN = NaN"


section \<open>A sample engine\<close>

text \<open>
  For the closed instances below the built-ins are needed on a few concrete inputs.
  \<open>ascii_engine\<close> computes them for strings of ASCII characters (where one byte is
  one character and one code unit) and for the decimal notation of an integer, which
  is what the engine prints for every integer of magnitude below \<open>10^21\<close>. It is used
  on such inputs only; no general statement refers to it.
\<close>

definition lower_char :: "char \<Rightarrow> char" where
  "lower_char c =
     (let n = (of_char c :: nat) in if 65 \<le> n \<and> n \<le> 90 then char_of (n + 32) else c)"

definition is_space :: "char \<Rightarrow> bool" where
  "is_space c = (let n = (of_char c :: nat) in (9 \<le> n \<and> n \<le> 13) \<or> n = 32)"

definition ascii_trim :: "string \<Rightarrow> string" where
  "ascii_trim s = rev (dropWhile is_space (rev (dropWhile is_space s)))"

function ascii_split :: "string \<Rightarrow> string list" where
  "ascii_split s =
     (let w = takeWhile (\<lambda>c. \<not> is_space c) s; r = dropWhile (\<lambda>c. \<not> is_space c) s
      in if r = [] then [w] else w # ascii_split (dropWhile is_space r))"
  by pat_completeness auto
termination
proof (relation "measure length")
  show "wf (measure length)" by simp
next
  fix s :: string and w r
  assume r: "r = dropWhile (\<lambda>c. \<not> is_space c) s" and n: "r \<noteq> []"
  obtain x r' where xr: "r = x # r'" using n by (cases r) auto
  have "\<not> \<not> is_space (hd r)" using n unfolding r by (rule hd_dropWhile)
  then have "is_space x" using xr by simp
  then have "dropWhile is_space r = dropWhile is_space r'" using xr by simp
  then have "length (dropWhile is_space r) \<le> length r'" by (simp add: length_dropWhile_le)
  also have "\<dots> < length r" using xr by simp
  also have "\<dots> \<le> length s" unfolding r by (rule length_dropWhile_le)
  finally show "(dropWhile is_space r, s) \<in> measure length" by simp
qed

declare ascii_split.simps [simp del]

function show_nat :: "nat \<Rightarrow> string" where
  "show_nat n = (if n < 10 then [char_of (48 + n)] else show_nat (n div 10) @ [char_of (48 + n mod 10)])"
  by pat_completeness auto
termination
  by (relation "measure id") auto

declare show_nat.simps [simp del]

definition show_int :: "int \<Rightarrow> string" where
  "show_int i = (if i < 0 then CHR ''-'' # show_nat (nat (- i)) else show_nat (nat i))"

definition ascii_engine :: engine where
  "ascii_engine =
     \<lparr>to_lower = map lower_char,
      trim_ws = ascii_trim,
      split_ws = ascii_split,
      char_codes = map of_char,
      num_text = show_int\<rparr>"


section \<open>Data acquisition: \<open>dataScraper.js\<close>\<close>

text \<open>
  \<open>cleanAndDeduplicateData\<close> reads the clock once per kept record
  (\<open>new Date().toISOString()\<close>) and, for a record without a truthy \<open>id\<close>, builds one
  from \<open>Date.now()\<close> and \<open>Math.random()\<close>. Both are taken from the environment,
  indexed by the position of the record in the input list.
\<close>

record clock =
  now_iso :: "nat \<Rightarrow> string"
  fresh_id :: "nat \<Rightarrow> string"

text \<open>The template literal
  \<open>`${scheme.name.toLowerCase()}-${scheme.category.toLowerCase()}`\<close>,
  evaluated left to right.\<close>

definition composite_key :: "engine \<Rightarrow> jsobj \<Rightarrow> error + string" where
  "composite_key U scheme =
     (case toLowerCase U (js_get scheme ''name'') of
        Inl e \<Rightarrow> Inl e
      | Inr n \<Rightarrow>
          (case toLowerCase U (js_get scheme ''category'') of
             Inl e \<Rightarrow> Inl e
           | Inr c \<Rightarrow> Inr (n @ ''-'' @ c)))"

definition array_or_empty :: "jsval \<Rightarrow> jsval" where
  "array_or_empty v = (if isArray v then v else JArr [])"

text \<open>The object literal \<open>cleanedScheme\<close>; it is only built when \<open>scheme.name\<close>
  is a string, so \<open>scheme.name.trim()\<close> is written for that case.\<close>

definition cleanedScheme :: "engine \<Rightarrow> clock \<Rightarrow> nat \<Rightarrow> jsobj \<Rightarrow> error + jsobj" where
  "cleanedScheme U clk i scheme =
     (case trim U (js_get scheme ''name'') of
        Inl e \<Rightarrow> Inl e
      | Inr trimmed \<Rightarrow> Inr
     [ (''id'', js_or (js_get scheme ''id'') (JStr (fresh_id clk i))),
       (''name'', JStr trimmed),
       (''nameHindi'', js_or (js_get scheme ''nameHindi'') (JStr '''')),
       (''nameTamil'', js_or (js_get scheme ''nameTamil'') (JStr '''')),
       (''category'', js_or (js_get scheme ''category'') (JStr ''General'')),
       (''categoryHindi'', js_or (js_get scheme ''categoryHindi'') (JStr '''')),
       (''categoryTamil'', js_or (js_get scheme ''categoryTamil'') (JStr '''')),
       (''objective'', js_or (js_get scheme ''objective'') (JStr '''')),
       (''objectiveHindi'', js_or (js_get scheme ''objectiveHindi'') (JStr '''')),
       (''objectiveTamil'', js_or (js_get scheme ''objectiveTamil'') (JStr '''')),
       (''eligibility'', array_or_empty (js_get scheme ''eligibility'')),
       (''eligibilityHindi'', array_or_empty (js_get scheme ''eligibilityHindi'')),
       (''eligibilityTamil'', array_or_empty (js_get scheme ''eligibilityTamil'')),
       (''documentsRequired'', array_or_empty (js_get scheme ''documentsRequired'')),
       (''documentsRequiredHindi'', array_or_empty (js_get scheme ''documentsRequiredHindi'')),
       (''documentsRequiredTamil'', array_or_empty (js_get scheme ''documentsRequiredTamil'')),
       (''applicationProcedure'', array_or_empty (js_get scheme ''applicationProcedure'')),
       (''applicationProcedureHindi'', array_or_empty (js_get scheme ''applicationProcedureHindi'')),
       (''applicationProcedureTamil'', array_or_empty (js_get scheme ''applicationProcedureTamil'')),
       (''benefits'', js_or (js_get scheme ''benefits'') (JStr '''')),
       (''benefitsHindi'', js_or (js_get scheme ''benefitsHindi'') (JStr '''')),
       (''benefitsTamil'', js_or (js_get scheme ''benefitsTamil'') (JStr '''')),
       (''deadline'', js_or (js_get scheme ''deadline'') (JStr ''Ongoing'')),
       (''deadlineHindi'', js_or (js_get scheme ''deadlineHindi'') (JStr '''')),
       (''deadlineTamil'', js_or (js_get scheme ''deadlineTamil'') (JStr '''')),
       (''contactInfo'', js_or (js_get scheme ''contactInfo'') (JStr '''')),
       (''contactInfoHindi'', js_or (js_get scheme ''contactInfoHindi'') (JStr '''')),
       (''contactInfoTamil'', js_or (js_get scheme ''contactInfoTamil'') (JStr '''')),
       (''website'', js_or (js_get scheme ''website'') (JStr '''')),
       (''source'', js_or (js_get scheme ''source'') (JStr ''Unknown'')),
       (''lastUpdated'', JStr (now_iso clk i)),
       (''tags'', array_or_empty (js_get scheme ''tags'')) ])"

text \<open>The guard \<open>scheme.name && scheme.name.trim()\<close>.\<close>

definition name_present :: "engine \<Rightarrow> jsobj \<Rightarrow> error + bool" where
  "name_present U scheme =
     (if truthy (js_get scheme ''name'')
      then (case trim U (js_get scheme ''name'') of
              Inl e \<Rightarrow> Inl e
            | Inr t \<Rightarrow> Inr (truthy (JStr t)))
      else Inr False)"

text \<open>The body of \<open>schemes.forEach\<close>, with the two local accumulators \<open>seen\<close> (a
  \<open>Set\<close>) and \<open>cleaned\<close> (an array) passed along; \<open>i\<close> is the position of the
  current record. An exception leaves the loop and the function.\<close>

fun clean_loop ::
  "engine \<Rightarrow> clock \<Rightarrow> nat \<Rightarrow> jsobj list \<Rightarrow> string set \<Rightarrow> jsobj list \<Rightarrow> error + jsobj list" where
  "clean_loop U clk i [] seen cleaned = Inr cleaned"
| "clean_loop U clk i (scheme # rest) seen cleaned =
     (case composite_key U scheme of
        Inl e \<Rightarrow> Inl e
      | Inr key \<Rightarrow>
          if key \<in> seen then clean_loop U clk (Suc i) rest seen cleaned
          else (case name_present U scheme of
                  Inl e \<Rightarrow> Inl e
                | Inr False \<Rightarrow> clean_loop U clk (Suc i) rest seen cleaned
                | Inr True \<Rightarrow>
                    (case cleanedScheme U clk i scheme of
                       Inl e \<Rightarrow> Inl e
                     | Inr c \<Rightarrow> clean_loop U clk (Suc i) rest (insert key seen) (cleaned @ [c]))))"

definition cleanAndDeduplicateData :: "engine \<Rightarrow> clock \<Rightarrow> jsobj list \<Rightarrow> error + jsobj list" where
  "cleanAndDeduplicateData U clk schemes = clean_loop U clk 0 schemes {} []"

text \<open>A record as the acquisition layer expects it: \<open>name\<close> and \<open>category\<close>
  are strings.\<close>

definition has_name_and_category :: "jsobj \<Rightarrow> bool" where
  "has_name_and_category s \<longleftrightarrow> is_string (js_get s ''name'') \<and> is_string (js_get s ''category'')"


text \<open>The positions of the input that deduplication is meant to keep: the record has
  a non-blank name, and no earlier record with a non-blank name has the same composite
  key.\<close>

definition first_seen :: "engine \<Rightarrow> jsobj list \<Rightarrow> nat list" where
  "first_seen U xs =
     filter (\<lambda>i. name_present U (xs ! i) = Inr True \<and>
                 (\<forall>j \<in> set [0..<i]. name_present U (xs ! j) = Inr True \<longrightarrow>
                                      composite_key U (xs ! j) \<noteq> composite_key U (xs ! i)))
            [0..<length xs]"


text \<open>Two notions used to state the loop invariant of \<open>clean_loop\<close>: the keys that
  the records of a processed prefix have put into \<open>seen\<close>, and the test that decides
  whether position \<open>i\<close> is kept.\<close>

definition keys_of :: "engine \<Rightarrow> jsobj list \<Rightarrow> string set" where
  "keys_of U pre = {k. \<exists>s \<in> set pre. name_present U s = Inr True \<and> composite_key U s = Inr k}"

definition keeps :: "engine \<Rightarrow> jsobj list \<Rightarrow> nat \<Rightarrow> bool" where
  "keeps U xs i \<longleftrightarrow> name_present U (xs ! i) = Inr True \<and>
                 (\<forall>j \<in> set [0..<i]. name_present U (xs ! j) = Inr True \<longrightarrow>
                                      composite_key U (xs ! j) \<noteq> composite_key U (xs ! i))"


text \<open>Sample data for the closed instances below: a clock that always shows the same
  instant, and three raw records.\<close>

definition sample_clock :: clock where
  "sample_clock = \<lparr>now_iso = (\<lambda>i. ''2024-01-01T00:00:00.000Z''), fresh_id = (\<lambda>i. ''scheme-1704067200000-k3x9q2m1z'')\<rparr>"

definition pm_kisan :: jsobj where
  "pm_kisan = [(''id'', JStr ''pm-kisan-samman-nidhi''), (''name'', JStr ''PM Kisan Samman Nidhi''),
               (''category'', JStr ''Agriculture''), (''source'', JStr ''PM Kisan'')]"


definition nsp_merit :: jsobj where
  "nsp_merit = [(''id'', JStr ''nsp-merit-scholarship''), (''name'', JStr ''Merit Scholarship Scheme''),
                (''category'', JStr ''Education''), (''source'', JStr ''NSP'')]"


section \<open>Vector index: \<open>vectorDB.js\<close>\<close>

subsection \<open>Cosine similarity\<close>

text \<open>The loop of \<open>cosineSimilarity\<close> with its three accumulators, in double
  arithmetic; \<open>i\<close> is the loop counter.\<close>

function cosine_loop ::
  "double list \<Rightarrow> double list \<Rightarrow> nat \<Rightarrow> double \<times> double \<times> double \<Rightarrow> double \<times> double \<times> double" where
  "cosine_loop vecA vecB i (dotProduct, normA, normB) =
     (if i < length vecA
      then cosine_loop vecA vecB (Suc i)
             (dadd dotProduct (dmul (vecA ! i) (vecB ! i)),
              dadd normA (dmul (vecA ! i) (vecA ! i)),
              dadd normB (dmul (vecB ! i) (vecB ! i)))
      else (dotProduct, normA, normB))"
  by pat_completeness auto
termination
  by (relation "measure (\<lambda>(vecA, vecB, i, acc). length vecA - i)") auto

declare cosine_loop.simps [simp del]

definition cosineSimilarity :: "double list \<Rightarrow> double list \<Rightarrow> error + double" where
  "cosineSimilarity vecA vecB =
     (if length vecA \<noteq> length vecB then Inl (Error ''Vectors must have the same length'')
      else (case cosine_loop vecA vecB 0 (Fin 0, Fin 0, Fin 0) of
              (dotProduct, normA, normB) \<Rightarrow>
                (let normA = dsqrt normA; normB = dsqrt normB
                 in if normA = Fin 0 \<or> normB = Fin 0 then Inr (Fin 0)
                    else Inr (ddiv dotProduct (dmul normA normB)))))"

text \<open>The mathematical notions the specification uses, over the reals: the dot
  product and the Euclidean norm of a vector, and the cosine of the angle between two
  vectors (\<open>0\<close> by convention when one of them is the zero vector).\<close>

definition dot :: "real list \<Rightarrow> real list \<Rightarrow> real" where
  "dot a b = (\<Sum>k<length a. a ! k * b ! k)"

definition euclidean_norm :: "real list \<Rightarrow> real" where
  "euclidean_norm a = sqrt (dot a a)"

definition cosine :: "real list \<Rightarrow> real list \<Rightarrow> real" where
  "cosine a b =
     (if euclidean_norm a = 0 \<or> euclidean_norm b = 0 then 0
      else dot a b / (euclidean_norm a * euclidean_norm b))"

text \<open>A real is \<open>exact\<close> when it is a double, that is when rounding leaves it as
  it is. A run of \<open>cosineSimilarity\<close> on two vectors of finite components is free of
  rounding when every value it computes is exact: each product, each partial sum, the
  two square roots, their product and the quotient.\<close>

definition exact :: "real \<Rightarrow> bool" where
  "exact r \<longleftrightarrow> round_double r = Fin r"

definition exact_run :: "real list \<Rightarrow> real list \<Rightarrow> bool" where
  "exact_run a b \<longleftrightarrow>
     (\<forall>i<length a.
        exact (a ! i * b ! i) \<and> exact (a ! i * a ! i) \<and> exact (b ! i * b ! i) \<and>
        exact (\<Sum>k<Suc i. a ! k * b ! k) \<and>
        exact (\<Sum>k<Suc i. a ! k * a ! k) \<and>
        exact (\<Sum>k<Suc i. b ! k * b ! k)) \<and>
     exact (euclidean_norm a) \<and> exact (euclidean_norm b) \<and>
     exact (euclidean_norm a * euclidean_norm b) \<and>
     exact (dot a b / (euclidean_norm a * euclidean_norm b))"


subsection \<open>String conversion\<close>

text \<open>\<open>String(v)\<close> as a template literal applies it, and \<open>Array.prototype.join\<close>.\<close>

fun join :: "string \<Rightarrow> string list \<Rightarrow> string" where
  "join sep [] = []"
| "join sep [x] = x"
| "join sep (x # y # ys) = x @ sep @ join sep (y # ys)"

fun to_string :: "engine \<Rightarrow> jsval \<Rightarrow> string" where
  "to_string U JUndefined = ''undefined''"
| "to_string U JNull = ''null''"
| "to_string U (JBool b) = (if b then ''true'' else ''false'')"
| "to_string U (JNum n) = num_text U n"
| "to_string U (JStr s) = s"
| "to_string U (JArr xs) =
     join '','' (map (\<lambda>v. if v = JUndefined \<or> v = JNull then [] else to_string U v) xs)"
| "to_string U (JObj fs) = ''[object Object]''"

definition array_join :: "engine \<Rightarrow> string \<Rightarrow> jsval list \<Rightarrow> string" where
  "array_join U sep xs =
     join sep (map (\<lambda>v. if v = JUndefined \<or> v = JNull then [] else to_string U v) xs)"

text \<open>The optional call \<open>v?.join(sep)\<close>: \<open>undefined\<close> for a missing value, the joined
  string for an array, a \<open>TypeError\<close> for any other value (none has a callable
  \<open>join\<close>).\<close>

fun opt_join :: "engine \<Rightarrow> jsval \<Rightarrow> string \<Rightarrow> error + jsval" where
  "opt_join U JUndefined sep = Inr JUndefined"
| "opt_join U JNull sep = Inr JUndefined"
| "opt_join U (JArr xs) sep = Inr (JStr (array_join U sep xs))"
| "opt_join U _ sep = Inl (TypeError ''join is not a function'')"

text \<open>Property access on an arbitrary value, for the three names read from a metadata
  row: it throws on \<open>undefined\<close> and \<open>null\<close>, and a primitive or an array has no
  such property.\<close>

fun js_member :: "jsval \<Rightarrow> string \<Rightarrow> error + jsval" where
  "js_member (JObj fs) k = Inr (js_get fs k)"
| "js_member JUndefined k = Inl (TypeError ''Cannot read properties of undefined'')"
| "js_member JNull k = Inl (TypeError ''Cannot read properties of null'')"
| "js_member _ k = Inr JUndefined"

text \<open>\<open>xs.slice(0, k)\<close> for an integer \<open>k\<close>: a negative \<open>k\<close> counts from the end.\<close>

definition slice0 :: "'a list \<Rightarrow> int \<Rightarrow> 'a list" where
  "slice0 xs k = (if k < 0 then take (nat (int (length xs) + k)) xs else take (nat k) xs)"

text \<open>\<open>xs.map(f)\<close> where \<open>f\<close> may throw: the first exception ends the traversal.\<close>

fun map_result :: "('a \<Rightarrow> error + 'b) \<Rightarrow> 'a list \<Rightarrow> error + 'b list" where
  "map_result f [] = Inr []"
| "map_result f (x # xs) =
     (case f x of
        Inl e \<Rightarrow> Inl e
      | Inr y \<Rightarrow> (case map_result f xs of Inl e \<Rightarrow> Inl e | Inr ys \<Rightarrow> Inr (y # ys)))"

text \<open>\<open>xs.sort(cmp)\<close> with a comparator that returns a number: the sort is stable,
  and an element is moved behind another one only when the comparator is positive on
  the pair; a comparator value of \<open>NaN\<close> counts as \<open>0\<close>. When the comparator is not a
  consistent order (it is not when it returns \<open>NaN\<close>) the language leaves the order to
  the engine; the insertion below is then one of the permitted results.\<close>

definition positive :: "double \<Rightarrow> bool" where
  "positive d = (case d of Fin v \<Rightarrow> 0 < v | PInf \<Rightarrow> True | _ \<Rightarrow> False)"

fun insert_by :: "('a \<Rightarrow> 'a \<Rightarrow> double) \<Rightarrow> 'a \<Rightarrow> 'a list \<Rightarrow> 'a list" where
  "insert_by cmp x [] = [x]"
| "insert_by cmp x (y # ys) = (if positive (cmp x y) then y # insert_by cmp x ys else x # y # ys)"

definition js_sort :: "('a \<Rightarrow> 'a \<Rightarrow> double) \<Rightarrow> 'a list \<Rightarrow> 'a list" where
  "js_sort cmp xs = foldr (insert_by cmp) xs []"


subsection \<open>Embeddings\<close>

text \<open>The string hash of the fallback embedding:
  \<open>a = ((a << 5) - a) + b.charCodeAt(0); return a & a\<close> over the code units of a word.
  The shift and \<open>a & a\<close> produce 32-bit integers and the arithmetic between them is
  exact, so each step is the same computation modulo \<open>2^32\<close>.\<close>

definition js_hash :: "nat list \<Rightarrow> 32 word" where
  "js_hash codes = foldl (\<lambda>a b. (push_bit 5 a - a) + of_nat b) 0 codes"

text \<open>\<open>Math.abs(hash) % 1536\<close> on the signed reading of the hash.\<close>

definition hash_index :: "nat list \<Rightarrow> nat" where
  "hash_index codes = nat \<bar>sint (js_hash codes)\<bar> mod 1536"

text \<open>\<open>generateSimpleEmbedding(text)\<close>: \<open>text.toLowerCase().split(/\s+/)\<close>, then one
  increment of a component per word.\<close>

definition generateSimpleEmbedding :: "engine \<Rightarrow> jsval \<Rightarrow> error + double list" where
  "generateSimpleEmbedding U text =
     (case toLowerCase U text of
        Inl e \<Rightarrow> Inl e
      | Inr lowered \<Rightarrow>
          Inr (foldl (\<lambda>embedding word.
                        embedding[hash_index (char_codes U word) :=
                                    dadd (embedding ! hash_index (char_codes U word)) (Fin 1)])
                     (replicate 1536 (Fin 0)) (split_ws U lowered)))"


subsection \<open>The index and its collaborators\<close>

text \<open>
  What the module cannot decide by itself is taken from the environment: the built-ins
  of the engine, the answer of the configured embedding service to a text, the answer
  of the external store to an \<open>add\<close> and to a \<open>query\<close>, given the \<open>add\<close> requests
  it has received so far, and the default batch size
  \<open>parseInt(process.env.BATCH_SIZE || '500')\<close>, a natural number (500 when the
  variable is not set; a setting that does not parse to a non-negative integer is left
  out). A query answer is the list of metadata rows with their distances; an answer that
  cannot be decoded counts as a failure of the query.
\<close>

record add_request =
  documents :: "string list"
  metadatas :: "jsobj list"
  ids :: "jsval list"
  embeddings :: "double list list"

record env =
  builtins :: engine
  llm :: "jsval \<Rightarrow> error + double list"
  chroma_add :: "add_request list \<Rightarrow> add_request \<Rightarrow> error option"
  chroma_query :: "add_request list \<Rightarrow> double list \<Rightarrow> int \<Rightarrow> error + (jsval \<times> double) list"
  batch_size :: nat

record mem_vector =
  mv_id :: jsval
  mv_text :: string
  mv_metadata :: jsobj

text \<open>The module state: \<open>collection\<close> is \<open>None\<close> while the variable is
  \<open>undefined\<close> (in-memory mode); with a connected store it holds the \<open>add\<close> requests
  sent to it, oldest first, whether they succeeded or not.\<close>

record vectordb =
  collection :: "add_request list option"
  inMemoryVectors :: "mem_vector list"
  inMemoryEmbeddings :: "double list list"

record search_result =
  r_id :: jsval
  r_name :: jsval
  r_category :: jsval
  r_score :: double
  r_metadata :: jsval

definition generateEmbedding :: "env \<Rightarrow> jsval \<Rightarrow> error + double list" where
  "generateEmbedding E text =
     (case llm E text of
        Inr v \<Rightarrow> Inr v
      | Inl e \<Rightarrow> generateSimpleEmbedding (builtins E) text)"

definition createSchemeText :: "engine \<Rightarrow> jsobj \<Rightarrow> error + string" where
  "createSchemeText U scheme =
     (case opt_join U (js_get scheme ''eligibility'') '', '' of Inl e \<Rightarrow> Inl e | Inr elig \<Rightarrow>
      case opt_join U (js_get scheme ''documentsRequired'') '', '' of Inl e \<Rightarrow> Inl e | Inr docs \<Rightarrow>
      case opt_join U (js_get scheme ''applicationProcedure'') '', '' of Inl e \<Rightarrow> Inl e | Inr procedure \<Rightarrow>
      case opt_join U (js_get scheme ''tags'') '', '' of Inl e \<Rightarrow> Inl e | Inr tags \<Rightarrow>
        Inr (trim_ws U
          ([CHR 0x0A] @ ''    Scheme Name: '' @ to_string U (js_get scheme ''name'') @
           [CHR 0x0A] @ ''    Category: '' @ to_string U (js_get scheme ''category'') @
           [CHR 0x0A] @ ''    Objective: '' @ to_string U (js_get scheme ''objective'') @
           [CHR 0x0A] @ ''    Eligibility: '' @ to_string U elig @
           [CHR 0x0A] @ ''    Documents Required: '' @ to_string U docs @
           [CHR 0x0A] @ ''    Application Procedure: '' @ to_string U procedure @
           [CHR 0x0A] @ ''    Benefits: '' @ to_string U (js_get scheme ''benefits'') @
           [CHR 0x0A] @ ''    Contact Info: '' @ to_string U (js_get scheme ''contactInfo'') @
           [CHR 0x0A] @ ''    Website: '' @ to_string U (js_get scheme ''website'') @
           [CHR 0x0A] @ ''    Tags: '' @ to_string U tags @
           [CHR 0x0A] @ ''  '')))"

text \<open>The metadata literal written in all four ingestion paths.\<close>

definition scheme_metadata :: "engine \<Rightarrow> jsobj \<Rightarrow> error + jsobj" where
  "scheme_metadata U scheme =
     (case opt_join U (js_get scheme ''tags'') '', '' of
        Inl e \<Rightarrow> Inl e
      | Inr tags \<Rightarrow>
          Inr [ (''id'', js_get scheme ''id''),
                (''name'', js_get scheme ''name''),
                (''category'', js_get scheme ''category''),
                (''tags'', js_or tags (JStr '''')),
                (''language'', JStr ''en'') ])"


subsection \<open>Ingestion\<close>

text \<open>What every ingestion path computes for one scheme, in this order: the text, its
  embedding, and the metadata literal. Any of the three may throw.\<close>

definition prepare :: "env \<Rightarrow> jsobj \<Rightarrow> error + (string \<times> double list \<times> jsobj)" where
  "prepare E scheme =
     (case createSchemeText (builtins E) scheme of
        Inl e \<Rightarrow> Inl e
      | Inr schemeText \<Rightarrow>
          (case generateEmbedding E (JStr schemeText) of
             Inl e \<Rightarrow> Inl e
           | Inr embedding \<Rightarrow>
               (case scheme_metadata (builtins E) scheme of
                  Inl e \<Rightarrow> Inl e
                | Inr metadata \<Rightarrow> Inr (schemeText, embedding, metadata))))"

definition empty_request :: add_request where
  "empty_request = \<lparr>documents = [], metadatas = [], ids = [], embeddings = []\<rparr>"

text \<open>The inner loop \<open>for (const scheme of batch)\<close> filling the four arrays.\<close>

fun build_batch :: "env \<Rightarrow> jsobj list \<Rightarrow> add_request \<Rightarrow> error + add_request" where
  "build_batch E [] req = Inr req"
| "build_batch E (scheme # rest) req =
     (case prepare E scheme of
        Inl e \<Rightarrow> Inl e
      | Inr (schemeText, embedding, metadata) \<Rightarrow>
          build_batch E rest
            \<lparr>documents = documents req @ [schemeText],
             metadatas = metadatas req @ [metadata],
             ids = ids req @ [js_get scheme ''id''],
             embeddings = embeddings req @ [embedding]\<rparr>)"

text \<open>The outer loop \<open>for (let start = 0; start < schemes.length; start += batchSize)\<close>
  of the external path. With \<open>batchSize = 0\<close> it does not advance, so the loop is a
  partial function: \<open>None\<close> stands for a run that never returns. \<open>sent\<close> is the
  list of requests the store has received.\<close>

partial_function (option) chunk_loop ::
  "env \<Rightarrow> jsobj list \<Rightarrow> nat \<Rightarrow> nat \<Rightarrow> add_request list \<Rightarrow> ((error + unit) \<times> add_request list) option" where
  "chunk_loop E schemes batchSize start sent =
     (if start < length schemes
      then (case build_batch E (take batchSize (drop start schemes)) empty_request of
              Inl e \<Rightarrow> Some (Inl e, sent)
            | Inr req \<Rightarrow>
                (case chroma_add E sent req of
                   Some e \<Rightarrow> Some (Inl e, sent @ [req])
                 | None \<Rightarrow> chunk_loop E schemes batchSize (start + batchSize) (sent @ [req])))
      else Some (Inr (), sent))"

text \<open>The loop of the in-memory path.\<close>

fun memory_loop :: "env \<Rightarrow> jsobj list \<Rightarrow> vectordb \<Rightarrow> (error + unit) \<times> vectordb" where
  "memory_loop E [] db = (Inr (), db)"
| "memory_loop E (scheme # rest) db =
     (case prepare E scheme of
        Inl e \<Rightarrow> (Inl e, db)
      | Inr (schemeText, embedding, metadata) \<Rightarrow>
          memory_loop E rest
            (db\<lparr>inMemoryVectors := inMemoryVectors db @
                   [\<lparr>mv_id = js_get scheme ''id'', mv_text = schemeText, mv_metadata = metadata\<rparr>],
                inMemoryEmbeddings := inMemoryEmbeddings db @ [embedding]\<rparr>))"

text \<open>\<open>addSchemesToVectorDB(schemes, batchSize)\<close>. Its \<open>catch\<close> logs and rethrows, so
  the result of the body is the result of the call.\<close>

definition addSchemesToVectorDB ::
  "env \<Rightarrow> vectordb \<Rightarrow> jsobj list \<Rightarrow> nat \<Rightarrow> ((error + unit) \<times> vectordb) option" where
  "addSchemesToVectorDB E db schemes batchSize =
     (if schemes = [] then Some (Inr (), db)
      else (case collection db of
              Some sent \<Rightarrow>
                (case chunk_loop E schemes batchSize 0 sent of
                   None \<Rightarrow> None
                 | Some (Inl error, sent') \<Rightarrow> Some (Inl error, db\<lparr>collection := Some sent'\<rparr>)
                 | Some (Inr u, sent') \<Rightarrow> Some (Inr (), db\<lparr>collection := Some sent'\<rparr>))
            | None \<Rightarrow>
                (case memory_loop E schemes db of
                   (Inl error, db') \<Rightarrow> Some (Inl error, db')
                 | (Inr u, db') \<Rightarrow> Some (Inr (), db'))))"

text \<open>\<open>addSchemeToVectorDB(scheme)\<close>: the \<open>try\<close> block, then the \<open>catch\<close> that logs
  the error and returns normally.\<close>

definition addScheme_try :: "env \<Rightarrow> vectordb \<Rightarrow> jsobj \<Rightarrow> (error + unit) \<times> vectordb" where
  "addScheme_try E db scheme =
     (case prepare E scheme of
        Inl e \<Rightarrow> (Inl e, db)
      | Inr (schemeText, embedding, metadata) \<Rightarrow>
          (case collection db of
             Some sent \<Rightarrow>
               (let req = \<lparr>documents = [schemeText], metadatas = [metadata],
                           ids = [js_get scheme ''id''], embeddings = [embedding]\<rparr>
                in (case chroma_add E sent req of
                      Some e \<Rightarrow> (Inl e, db\<lparr>collection := Some (sent @ [req])\<rparr>)
                    | None \<Rightarrow> (Inr (), db\<lparr>collection := Some (sent @ [req])\<rparr>)))
           | None \<Rightarrow>
               (Inr (),
                db\<lparr>inMemoryVectors := inMemoryVectors db @
                      [\<lparr>mv_id = js_get scheme ''id'', mv_text = schemeText, mv_metadata = metadata\<rparr>],
                   inMemoryEmbeddings := inMemoryEmbeddings db @ [embedding]\<rparr>)))"

definition addSchemeToVectorDB :: "env \<Rightarrow> vectordb \<Rightarrow> jsobj \<Rightarrow> (error + unit) \<times> vectordb" where
  "addSchemeToVectorDB E db scheme =
     (case addScheme_try E db scheme of
        (Inl error, db') \<Rightarrow> (Inr (), db')
      | (Inr u, db') \<Rightarrow> (Inr (), db'))"


subsection \<open>Search\<close>

text \<open>\<open>searchInMemoryVectors\<close>: the scores, the sort with the comparator
  \<open>b.similarity - a.similarity\<close>, the slice, and the lookup of the stored vector.\<close>

definition searchInMemoryVectors :: "vectordb \<Rightarrow> double list \<Rightarrow> int \<Rightarrow> error + search_result list" where
  "searchInMemoryVectors db queryEmbedding limit =
     (case map_result
             (\<lambda>(index, embedding).
                 case cosineSimilarity queryEmbedding embedding of
                   Inl e \<Rightarrow> Inl e
                 | Inr similarity \<Rightarrow> Inr (index, similarity))
             (enumerate 0 (inMemoryEmbeddings db)) of
        Inl e \<Rightarrow> Inl e
      | Inr similarities \<Rightarrow>
          map_result
            (\<lambda>(index, similarity).
                if index < length (inMemoryVectors db)
                then (let vector = inMemoryVectors db ! index
                      in Inr \<lparr>r_id = mv_id vector,
                              r_name = js_get (mv_metadata vector) ''name'',
                              r_category = js_get (mv_metadata vector) ''category'',
                              r_score = similarity,
                              r_metadata = JObj (mv_metadata vector)\<rparr>)
                else Inl (TypeError ''Cannot read properties of undefined (reading id)''))
            (slice0 (js_sort (\<lambda>a b. dsub (snd b) (snd a)) similarities) limit))"

text \<open>\<open>searchSimilarSchemes(query, limit)\<close>: the \<open>try\<close> block, then the \<open>catch\<close>
  that logs the error and returns \<open>[]\<close>.\<close>

definition search_try :: "env \<Rightarrow> vectordb \<Rightarrow> jsval \<Rightarrow> int \<Rightarrow> error + search_result list" where
  "search_try E db query limit =
     (case generateEmbedding E query of
        Inl e \<Rightarrow> Inl e
      | Inr queryEmbedding \<Rightarrow>
          (case collection db of
             Some sent \<Rightarrow>
               (case chroma_query E sent queryEmbedding limit of
                  Inl e \<Rightarrow> Inl e
                | Inr rows \<Rightarrow>
                    map_result
                      (\<lambda>(metadata, distance).
                          case js_member metadata ''id'' of Inl e \<Rightarrow> Inl e | Inr i \<Rightarrow>
                          case js_member metadata ''name'' of Inl e \<Rightarrow> Inl e | Inr n \<Rightarrow>
                          case js_member metadata ''category'' of Inl e \<Rightarrow> Inl e | Inr c \<Rightarrow>
                            Inr \<lparr>r_id = i, r_name = n, r_category = c,
                                 r_score = dsub (Fin 1) distance, r_metadata = metadata\<rparr>)
                      rows)
           | None \<Rightarrow> searchInMemoryVectors db queryEmbedding limit))"

definition searchSimilarSchemes :: "env \<Rightarrow> vectordb \<Rightarrow> jsval \<Rightarrow> int \<Rightarrow> error + search_result list" where
  "searchSimilarSchemes E db query limit =
     (case search_try E db query limit of
        Inl error \<Rightarrow> Inr []
      | Inr results \<Rightarrow> Inr results)"


section \<open>Training: \<open>ragTrainer.js\<close>\<close>

subsection \<open>Ingestion stage\<close>

text \<open>The fallback loop of \<open>trainVectorDatabase\<close>: one \<open>addSchemeToVectorDB\<close> per
  scheme, each inside its own \<open>try\<close>/\<open>catch\<close>.\<close>

fun per_scheme_adds :: "env \<Rightarrow> jsobj list \<Rightarrow> vectordb \<Rightarrow> vectordb" where
  "per_scheme_adds E [] db = db"
| "per_scheme_adds E (scheme # rest) db =
     (case addSchemeToVectorDB E db scheme of
        (Inl error, db') \<Rightarrow> per_scheme_adds E rest db'
      | (Inr u, db') \<Rightarrow> per_scheme_adds E rest db')"

text \<open>\<open>trainVectorDatabase(processedData)\<close>: the batch call inside a \<open>try\<close>; its
  \<open>catch\<close> runs the fallback loop over all of \<open>processedData\<close>.\<close>

definition trainVectorDatabase ::
  "env \<Rightarrow> vectordb \<Rightarrow> jsobj list \<Rightarrow> ((error + unit) \<times> vectordb) option" where
  "trainVectorDatabase E db schemes =
     (case addSchemesToVectorDB E db schemes (batch_size E) of
        None \<Rightarrow> None
      | Some (Inr u, db') \<Rightarrow> Some (Inr (), db')
      | Some (Inl batchError, db') \<Rightarrow> Some (Inr (), per_scheme_adds E schemes db'))"


text \<open>The chunking the specification describes: consecutive pieces of \<open>c\<close> records,
  the last one shorter when \<open>c\<close> does not divide the number of records.\<close>

function chunks :: "nat \<Rightarrow> 'a list \<Rightarrow> 'a list list" where
  "chunks c xs = (if c = 0 \<or> xs = [] then [] else take c xs # chunks c (drop c xs))"
  by pat_completeness auto
termination
  by (relation "measure (\<lambda>(c, xs). length xs)") auto

declare chunks.simps [simp del]

text \<open>The requests a batch call sets out to send: one per chunk, built from the records
  of the chunk; building one fails when the text, the embedding or the metadata of one
  of its records cannot be produced.\<close>

definition planned_requests :: "env \<Rightarrow> nat \<Rightarrow> jsobj list \<Rightarrow> (error + add_request) list" where
  "planned_requests E c schemes = map (\<lambda>batch. build_batch E batch empty_request) (chunks c schemes)"

text \<open>Carrying out such a plan against a store that has already received \<open>sent\<close>:
  the requests go out one after the other; the first chunk that cannot be built, or the
  first request the store rejects, ends the run with that error.\<close>

fun run_plan ::
  "env \<Rightarrow> add_request list \<Rightarrow> (error + add_request) list \<Rightarrow> (error + unit) \<times> add_request list" where
  "run_plan E sent [] = (Inr (), sent)"
| "run_plan E sent (Inl e # rest) = (Inl e, sent)"
| "run_plan E sent (Inr req # rest) =
     (case chroma_add E sent req of
        Some e \<Rightarrow> (Inl e, sent @ [req])
      | None \<Rightarrow> run_plan E (sent @ [req]) rest)"

text \<open>The request the fallback loop sends for one record, and the requests it sends
  for a list of records: one for each record whose text, embedding and metadata can be
  produced.\<close>

definition single_request :: "env \<Rightarrow> jsobj \<Rightarrow> error + add_request" where
  "single_request E scheme = build_batch E [scheme] empty_request"

definition single_requests :: "env \<Rightarrow> jsobj list \<Rightarrow> add_request list" where
  "single_requests E schemes =
     concat (map (\<lambda>scheme. case single_request E scheme of Inl e \<Rightarrow> [] | Inr req \<Rightarrow> [req]) schemes)"

text \<open>A record can be ingested when each of the four fields that \<open>createSchemeText\<close>
  and the metadata literal join is absent, \<open>null\<close> or an array.\<close>

definition joinable :: "jsval \<Rightarrow> bool" where
  "joinable v \<longleftrightarrow> v = JUndefined \<or> v = JNull \<or> isArray v"

definition ingestible :: "jsobj \<Rightarrow> bool" where
  "ingestible scheme \<longleftrightarrow>
     joinable (js_get scheme ''eligibility'') \<and>
     joinable (js_get scheme ''documentsRequired'') \<and>
     joinable (js_get scheme ''applicationProcedure'') \<and>
     joinable (js_get scheme ''tags'')"

text \<open>What an observer of the external store sees of the module state: the identifiers
  carried by each \<open>add\<close> request, oldest first.\<close>

definition sent_ids :: "vectordb \<Rightarrow> jsval list list option" where
  "sent_ids db = map_option (map ids) (collection db)"

text \<open>The number of records in a request, and the sizes of the requests the store has
  received.\<close>

definition request_size :: "add_request \<Rightarrow> nat" where
  "request_size req = length (ids req)"

definition sent_sizes :: "vectordb \<Rightarrow> nat list option" where
  "sent_sizes db = map_option (map request_size) (collection db)"


text \<open>Sample data for the index: an embedding service that answers every text with the
  same two-dimensional vector, a store that accepts every request and finds nothing,
  the empty in-memory index, and two versions of one scheme.\<close>

definition sample_env :: env where
  "sample_env = \<lparr>builtins = ascii_engine,
                  llm = (\<lambda>text. Inr [Fin 1, Fin 0]),
                  chroma_add = (\<lambda>sent req. None),
                  chroma_query = (\<lambda>sent q k. Inr []),
                  batch_size = 500\<rparr>"

definition empty_memory_db :: vectordb where
  "empty_memory_db = \<lparr>collection = None, inMemoryVectors = [], inMemoryEmbeddings = []\<rparr>"

definition scheme_v1 :: jsobj where
  "scheme_v1 = [(''id'', JStr ''pm-kisan''), (''name'', JStr ''PM Kisan''),
                (''category'', JStr ''Agriculture''), (''benefits'', JStr ''6000 per year'')]"

definition scheme_v2 :: jsobj where
  "scheme_v2 = [(''id'', JStr ''pm-kisan''), (''name'', JStr ''PM Kisan Samman Nidhi''),
                (''category'', JStr ''Agriculture''), (''benefits'', JStr ''8000 per year'')]"

text \<open>A store that rejects the first request it receives and accepts every later one,
  and a store that accepts the first request and rejects the second.\<close>

definition first_add_fails :: env where
  "first_add_fails =
     \<lparr>builtins = ascii_engine,
      llm = (\<lambda>text. Inr [Fin 1, Fin 0]),
      chroma_add = (\<lambda>sent req. if sent = [] then Some (Error ''add failed: payload rejected'') else None),
      chroma_query = (\<lambda>sent q k. Inr []),
      batch_size = 2\<rparr>"

definition second_add_fails :: env where
  "second_add_fails =
     \<lparr>builtins = ascii_engine,
      llm = (\<lambda>text. Inr [Fin 1, Fin 0]),
      chroma_add = (\<lambda>sent req. if length sent = 1 then Some (Error ''add failed: connection reset'') else None),
      chroma_query = (\<lambda>sent q k. Inr []),
      batch_size = 500\<rparr>"

definition empty_chroma_db :: vectordb where
  "empty_chroma_db = \<lparr>collection = Some [], inMemoryVectors = [], inMemoryEmbeddings = []\<rparr>"

definition numbered_scheme :: "nat \<Rightarrow> jsobj" where
  "numbered_scheme i = [(''id'', JNum (int i)), (''name'', JStr ''Scheme''), (''category'', JStr ''General'')]"

definition numbered_metadata :: "nat \<Rightarrow> jsobj" where
  "numbered_metadata i =
     [(''id'', JNum (int i)), (''name'', JStr ''Scheme''), (''category'', JStr ''General''),
      (''tags'', JStr ''''), (''language'', JStr ''en'')]"

text \<open>A record whose \<open>tags\<close> is a string instead of an array.\<close>

definition tagged_scheme :: jsobj where
  "tagged_scheme = [(''id'', JStr ''pm-kisan''), (''name'', JStr ''PM Kisan''),
                    (''category'', JStr ''Agriculture''), (''tags'', JStr ''farmer, income'')]"

text \<open>An in-memory index holding one embedding of three components.\<close>

definition mismatched_db :: vectordb where
  "mismatched_db =
     \<lparr>collection = None,
      inMemoryVectors = [\<lparr>mv_id = JStr ''pm-kisan'', mv_text = ''Scheme Name: PM Kisan'', mv_metadata = []\<rparr>],
      inMemoryEmbeddings = [[Fin 1, Fin 0, Fin 0]]\<rparr>"


section \<open>Scheduler: \<open>ScheduledTrainingService\<close>\<close>

text \<open>
  JavaScript runs an \<open>async\<close> function without interruption up to its first
  \<open>await\<close>, and again from the completion of the awaited work to the end. Both
  \<open>forceTraining\<close> and \<open>performScheduledTraining\<close> therefore consist of two atomic
  steps: the entry (the \<open>isTraining\<close> test and, when it passes, \<open>isTraining = true\<close>),
  and the exit (the update of \<open>lastTrainingTime\<close> after a successful run, then the
  \<open>finally\<close> block). Other calls may be interleaved between the two.

  The state holds the two fields of the service that these methods write, and the list
  \<open>active\<close> of the runs that have entered and not yet left; \<open>active\<close> is not a field
  of the service, it records what the event loop has in flight.
\<close>

datatype trigger = Forced | Scheduled

datatype outcome = Rejected error | Skipped | Started

record scheduler =
  isTraining :: bool
  lastTrainingTime :: "string option"
  active :: "trigger list"

definition initial_scheduler :: scheduler where
  "initial_scheduler = \<lparr>isTraining = False, lastTrainingTime = None, active = []\<rparr>"

definition forceTraining_enter :: "scheduler \<Rightarrow> outcome \<times> scheduler" where
  "forceTraining_enter s =
     (if isTraining s then (Rejected (Error ''Training already in progress''), s)
      else (Started, s\<lparr>isTraining := True, active := active s @ [Forced]\<rparr>))"

definition performScheduledTraining_enter :: "scheduler \<Rightarrow> outcome \<times> scheduler" where
  "performScheduledTraining_enter s =
     (if isTraining s then (Skipped, s)
      else (Started, s\<lparr>isTraining := True, active := active s @ [Scheduled]\<rparr>))"

text \<open>The exit of a run: \<open>finished\<close> carries the clock reading when the run set
  \<open>lastTrainingTime\<close> (it does so after a successful training), and is \<open>None\<close> when
  the run failed or found nothing to do. The \<open>finally\<close> block clears the flag in
  every case.\<close>

definition run_exit :: "trigger \<Rightarrow> string option \<Rightarrow> scheduler \<Rightarrow> scheduler" where
  "run_exit k finished s =
     s\<lparr>lastTrainingTime := (case finished of Some t \<Rightarrow> Some t | None \<Rightarrow> lastTrainingTime s),
       isTraining := False,
       active := remove1 k (active s)\<rparr>"

text \<open>The states the service can be in: any interleaving of entries, and of exits of
  runs that are in flight.\<close>

inductive reachable :: "scheduler \<Rightarrow> bool" where
  init: "reachable initial_scheduler"
| force: "reachable s \<Longrightarrow> reachable (snd (forceTraining_enter s))"
| sched: "reachable s \<Longrightarrow> reachable (snd (performScheduledTraining_enter s))"
| exit: "reachable s \<Longrightarrow> k \<in> set (active s) \<Longrightarrow> reachable (run_exit k finished s)"


section \<open>Persistence and the training pipeline\<close>

subsection \<open>JSON files\<close>

text \<open>What \<open>JSON.parse(JSON.stringify(v))\<close> returns: \<open>undefined\<close> becomes \<open>null\<close>
  inside an array, and a property whose value is \<open>undefined\<close> is left out.\<close>

fun json_copy :: "jsval \<Rightarrow> jsval" where
  "json_copy (JArr xs) =
     JArr (map (\<lambda>v. case json_copy v of JUndefined \<Rightarrow> JNull | w \<Rightarrow> w) xs)"
| "json_copy (JObj fs) =
     JObj (filter (\<lambda>(k, v). v \<noteq> JUndefined) (map (\<lambda>(k, v). (k, json_copy v)) fs))"
| "json_copy v = v"

definition json_copy_obj :: "jsobj \<Rightarrow> jsobj" where
  "json_copy_obj fs = filter (\<lambda>(k, v). v \<noteq> JUndefined) (map (\<lambda>(k, v). (k, json_copy v)) fs)"

text \<open>\<open>a === b\<close> between a value held in memory and a value parsed from a file: equal
  primitives are equal, while an array or an object is never identical to one from
  another object graph.\<close>

fun strict_equals :: "jsval \<Rightarrow> jsval \<Rightarrow> bool" where
  "strict_equals (JArr _) _ = False"
| "strict_equals (JObj _) _ = False"
| "strict_equals a b = (a = b)"

record validation_results =
  totalTestQueries :: nat
  successfulRetrievals :: nat
  averageRelevanceScore :: double
  responseTime :: nat

text \<open>The document \<open>training_results.json\<close>: the metrics of the last completed
  run, as the values they are serialised from.\<close>

record training_results =
  tr_totalSchemes :: nat
  tr_trainingAccuracy :: double
  tr_lastTrainingDate :: string
  tr_modelVersion :: string
  tr_validationResults :: validation_results

text \<open>
  The state the pipeline works on: the vector index, the four documents in the data
  directory (\<open>None\<close> while a document does not exist), of which
  \<open>scraping_metadata.json\<close> is represented by its record count and time stamp and
  \<open>training_examples.json\<close> by the examples written, and the number of acquisition
  runs so far, which selects the clock readings and the network answer of each run.
\<close>

record world =
  vdb :: vectordb
  scraped_schemes_json :: "jsobj list option"
  scraping_metadata_json :: "(nat \<times> string) option"
  training_examples_json :: "jsobj list option"
  training_results_json :: "training_results option"
  fetch_count :: nat

text \<open>
  The surroundings of the pipeline. The three sources: \<open>fetchMySchemeData\<close> catches
  every failure and returns a list (\<open>[]\<close> when the portal cannot be reached), so it is
  given by the list it returns in each acquisition run; \<open>fetchNSPData\<close> and
  \<open>fetchPMKisanData\<close> return fixed lists. \<open>fs_error\<close> tells which file-system
  operation fails (\<open>mkdir\<close> or the write of a named file). \<open>local_data\<close> is the
  local dataset when \<open>USE_LOCAL_DATA\<close> is set and the file could be read and parsed
  to an array (an empty one is ignored).
  The stages \<open>processTrainingData\<close> and \<open>generateTrainingExamples\<close> derive search
  text, keywords, scores and example queries; they touch neither the index nor the
  metrics document, and enter here as functions that return their result or throw.
\<close>

record sys =
  index_env :: env
  myscheme_data :: "nat \<Rightarrow> jsobj list"
  nsp_data :: "jsobj list"
  pmkisan_data :: "jsobj list"
  fetch_clock :: "nat \<Rightarrow> clock"
  fs_error :: "string \<Rightarrow> error option"
  local_data :: "jsobj list option"
  processTrainingData :: "jsobj list \<Rightarrow> error + jsobj list"
  buildTrainingExamples :: "jsobj list \<Rightarrow> error + jsobj list"
  validation_elapsed :: nat
  results_time :: string


subsection \<open>Acquisition\<close>

text \<open>\<open>saveDataToFile\<close>: \<open>mkdir\<close>, then the two writes; the \<open>catch\<close> rethrows, so a
  failure leaves what was written before it. The time stamp of the metadata is the
  clock reading that follows those of the records.\<close>

definition saveDataToFile :: "sys \<Rightarrow> clock \<Rightarrow> jsobj list \<Rightarrow> world \<Rightarrow> (error + unit) \<times> world" where
  "saveDataToFile S clk schemes w =
     (case fs_error S ''mkdir'' of
        Some e \<Rightarrow> (Inl e, w)
      | None \<Rightarrow>
          (case fs_error S ''scraped_schemes.json'' of
             Some e \<Rightarrow> (Inl e, w)
           | None \<Rightarrow>
               (let w1 = w\<lparr>scraped_schemes_json := Some (map json_copy_obj schemes)\<rparr>
                in (case fs_error S ''scraping_metadata.json'' of
                      Some e \<Rightarrow> (Inl e, w1)
                    | None \<Rightarrow>
                        (Inr (), w1\<lparr>scraping_metadata_json :=
                                      Some (length schemes, now_iso clk (length schemes))\<rparr>)))))"

text \<open>\<open>loadScrapedData\<close>: the parsed document, or \<open>[]\<close> when it cannot be read.\<close>

definition loadScrapedData :: "world \<Rightarrow> jsobj list" where
  "loadScrapedData w = (case scraped_schemes_json w of None \<Rightarrow> [] | Some schemes \<Rightarrow> schemes)"

definition fetchAllSchemeData :: "sys \<Rightarrow> world \<Rightarrow> (error + jsobj list) \<times> world" where
  "fetchAllSchemeData S w =
     (let n = fetch_count w;
          w0 = w\<lparr>fetch_count := Suc n\<rparr>;
          allSchemes = myscheme_data S n @ nsp_data S @ pmkisan_data S
      in (case cleanAndDeduplicateData (builtins (index_env S)) (fetch_clock S n) allSchemes of
            Inl e \<Rightarrow> (Inl e, w0)
          | Inr cleanedData \<Rightarrow>
              (case saveDataToFile S (fetch_clock S n) cleanedData w0 of
                 (Inl e, w1) \<Rightarrow> (Inl e, w1)
               | (Inr u, w1) \<Rightarrow> (Inr cleanedData, w1))))"


subsection \<open>Validation and the metrics document\<close>

definition testQueries :: "string list" where
  "testQueries = [''What is PM Kisan scheme?'', ''Tell me about agriculture schemes'',
                  ''How to apply for MGNREGA?'', ''What are the benefits of PMAY?'']"

definition validate_query :: "env \<Rightarrow> vectordb \<Rightarrow> validation_results \<Rightarrow> string \<Rightarrow> validation_results" where
  "validate_query E db v query =
     (case searchSimilarSchemes E db (JStr query) 3 of
        Inl e \<Rightarrow> v
      | Inr results \<Rightarrow>
          if results \<noteq> []
          then v\<lparr>successfulRetrievals := successfulRetrievals v + 1,
                 averageRelevanceScore :=
                   dadd (averageRelevanceScore v)
                        (ddiv (foldl (\<lambda>sum result. dadd sum (r_score result)) (Fin 0) results)
                              (Fin (real (length results))))\<rparr>
          else v)"

definition validateTraining :: "sys \<Rightarrow> world \<Rightarrow> error + validation_results" where
  "validateTraining S w =
     (let v = foldl (validate_query (index_env S) (vdb w))
                \<lparr>totalTestQueries = length testQueries, successfulRetrievals = 0,
                 averageRelevanceScore = Fin 0, responseTime = 0\<rparr>
                testQueries
      in Inr (v\<lparr>averageRelevanceScore :=
                  ddiv (averageRelevanceScore v) (Fin (real (length testQueries))),
                responseTime := validation_elapsed S\<rparr>))"

text \<open>\<open>saveTrainingResults\<close>: the only writer of \<open>training_results.json\<close>. The
  validation record has no \<open>totalSchemes\<close>, so \<open>validationResults.totalSchemes || 0\<close>
  is \<open>0\<close>. A failed write is logged and swallowed.\<close>

definition saveTrainingResults :: "sys \<Rightarrow> validation_results \<Rightarrow> world \<Rightarrow> (error + unit) \<times> world" where
  "saveTrainingResults S validationResults w =
     (let trainingResults =
            \<lparr>tr_totalSchemes = 0,
             tr_trainingAccuracy =
               ddiv (Fin (real (successfulRetrievals validationResults)))
                    (Fin (real (totalTestQueries validationResults))),
             tr_lastTrainingDate = results_time S,
             tr_modelVersion = ''1.0.0'',
             tr_validationResults = validationResults\<rparr>
      in (case fs_error S ''training_results.json'' of
            Some e \<Rightarrow> (Inr (), w)
          | None \<Rightarrow> (Inr (), w\<lparr>training_results_json := Some trainingResults\<rparr>)))"

text \<open>\<open>generateTrainingExamples\<close>: building the examples may throw; saving them
  swallows its own failure.\<close>

definition generateTrainingExamples :: "sys \<Rightarrow> jsobj list \<Rightarrow> world \<Rightarrow> (error + jsobj list) \<times> world" where
  "generateTrainingExamples S schemes w =
     (case buildTrainingExamples S schemes of
        Inl e \<Rightarrow> (Inl e, w)
      | Inr trainingExamples \<Rightarrow>
          (case fs_error S ''training_examples.json'' of
             Some e \<Rightarrow> (Inr trainingExamples, w)
           | None \<Rightarrow> (Inr trainingExamples, w\<lparr>training_examples_json := Some trainingExamples\<rparr>)))"


subsection \<open>\<open>trainRAGModel\<close> and \<open>retrainModel\<close>\<close>

record train_result =
  res_totalSchemes :: nat
  res_trainingExamples :: nat
  res_validationResults :: validation_results

text \<open>The \<open>try\<close> block of \<open>trainRAGModel\<close>, stage by stage; its \<open>catch\<close> logs and
  rethrows. The result is \<open>None\<close> when the ingestion loop does not return.\<close>

definition trainRAGModel :: "sys \<Rightarrow> world \<Rightarrow> ((error + train_result) \<times> world) option" where
  "trainRAGModel S w =
     (case fetchAllSchemeData S w of
        (Inl e, w1) \<Rightarrow> Some (Inl e, w1)
      | (Inr fetched, w1) \<Rightarrow>
          (let scrapedData =
                 (case local_data S of
                    Some localData \<Rightarrow> if localData \<noteq> [] then localData else fetched
                  | None \<Rightarrow> fetched)
           in (case processTrainingData S scrapedData of
                 Inl e \<Rightarrow> Some (Inl e, w1)
               | Inr processedData \<Rightarrow>
                   (case generateTrainingExamples S processedData w1 of
                      (Inl e, w2) \<Rightarrow> Some (Inl e, w2)
                    | (Inr trainingExamples, w2) \<Rightarrow>
                        (case trainVectorDatabase (index_env S) (vdb w2) processedData of
                           None \<Rightarrow> None
                         | Some (Inl e, db3) \<Rightarrow> Some (Inl e, w2\<lparr>vdb := db3\<rparr>)
                         | Some (Inr u, db3) \<Rightarrow>
                             (let w3 = w2\<lparr>vdb := db3\<rparr>
                              in (case validateTraining S w3 of
                                    Inl e \<Rightarrow> Some (Inl e, w3)
                                  | Inr validationResults \<Rightarrow>
                                      (case saveTrainingResults S validationResults w3 of
                                         (Inl e, w4) \<Rightarrow> Some (Inl e, w4)
                                       | (Inr u', w4) \<Rightarrow>
                                           Some (Inr \<lparr>res_totalSchemes = length processedData,
                                                      res_trainingExamples = length trainingExamples,
                                                      res_validationResults = validationResults\<rparr>,
                                                 w4)))))))))"

text \<open>\<open>hasDataChanged(newData, existingData)\<close>.\<close>

fun changed_loop :: "jsobj list \<Rightarrow> jsobj list \<Rightarrow> bool" where
  "changed_loop [] existingData = False"
| "changed_loop (newScheme # rest) existingData =
     (case find (\<lambda>s. strict_equals (js_get s ''id'') (js_get newScheme ''id'')) existingData of
        None \<Rightarrow> True
      | Some existingScheme \<Rightarrow>
          if \<not> strict_equals (js_get existingScheme ''lastUpdated'') (js_get newScheme ''lastUpdated'')
          then True
          else changed_loop rest existingData)"

definition hasDataChanged :: "jsobj list \<Rightarrow> jsobj list \<Rightarrow> bool" where
  "hasDataChanged newData existingData =
     (if length newData \<noteq> length existingData then True else changed_loop newData existingData)"

datatype retrain_result = Trained train_result | NoRetrainingNeeded

definition retrainModel :: "sys \<Rightarrow> world \<Rightarrow> ((error + retrain_result) \<times> world) option" where
  "retrainModel S w =
     (case fetchAllSchemeData S w of
        (Inl e, w1) \<Rightarrow> Some (Inl e, w1)
      | (Inr freshData, w1) \<Rightarrow>
          (let existingData = loadScrapedData w1
           in if hasDataChanged freshData existingData
              then (case trainRAGModel S w1 of
                      None \<Rightarrow> None
                    | Some (Inl e, w2) \<Rightarrow> Some (Inl e, w2)
                    | Some (Inr r, w2) \<Rightarrow> Some (Inr (Trained r), w2))
              else Some (Inr NoRetrainingNeeded, w1)))"


text \<open>Sample surroundings: the portal cannot be reached, the two fixed sources return
  one scheme each, every file operation succeeds, the clock advances from one
  acquisition run to the next, and the processing stage throws. The sample state has a
  metrics document from an earlier run.\<close>

definition run_clock :: "nat \<Rightarrow> clock" where
  "run_clock n = \<lparr>now_iso = (\<lambda>i. ''2024-01-01T0'' @ show_nat n @ '':00:00.000Z''),
                  fresh_id = (\<lambda>i. ''scheme-17040672'' @ show_nat n @ ''0000-k3x9q2m1z'')\<rparr>"

definition sample_sys :: sys where
  "sample_sys =
     \<lparr>index_env = sample_env,
      myscheme_data = (\<lambda>n. []),
      nsp_data = [nsp_merit],
      pmkisan_data = [pm_kisan],
      fetch_clock = run_clock,
      fs_error = (\<lambda>name. None),
      local_data = None,
      processTrainingData = (\<lambda>schemes. Inr schemes),
      buildTrainingExamples = (\<lambda>schemes. Inr []),
      validation_elapsed = 12,
      results_time = ''2024-01-01T02:00:05.000Z''\<rparr>"



definition fresh_world :: world where
  "fresh_world =
     \<lparr>vdb = empty_memory_db, scraped_schemes_json = None, scraping_metadata_json = None,
      training_examples_json = None, training_results_json = None, fetch_count = 0\<rparr>"



section \<open>Properties\<close>

subsection \<open>Acquisition: deduplication\<close>

lemma wf_key: "has_name_and_category s \<Longrightarrow> \<exists>k. composite_key U s = Inr k"
  by (cases "js_get s ''name''"; cases "js_get s ''category''")
     (auto simp: has_name_and_category_def composite_key_def)

lemma key_wf: "composite_key U s = Inr k \<Longrightarrow> has_name_and_category s"
  by (cases "js_get s ''name''"; cases "js_get s ''category''")
     (auto simp: has_name_and_category_def composite_key_def)

lemma wf_present: "has_name_and_category s \<Longrightarrow> \<exists>b. name_present U s = Inr b"
  by (cases "js_get s ''name''") (auto simp: has_name_and_category_def name_present_def)

lemma wf_cleaned: "has_name_and_category s \<Longrightarrow> \<exists>c. cleanedScheme U clk i s = Inr c"
  by (cases "js_get s ''name''") (auto simp: has_name_and_category_def cleanedScheme_def)

lemma keys_of_snoc:
  "keys_of U (pre @ [s]) =
     (if name_present U s = Inr True then {k. composite_key U s = Inr k} \<union> keys_of U pre
      else keys_of U pre)"
  by (auto simp: keys_of_def)

lemma keeps_here:
  assumes "composite_key U s = Inr k"
  shows "keeps U (pre @ s # rest) (length pre) \<longleftrightarrow> name_present U s = Inr True \<and> k \<notin> keys_of U pre"
proof -
  have "(\<forall>j \<in> set [0..<length pre]. name_present U (pre ! j) = Inr True \<longrightarrow> composite_key U (pre ! j) \<noteq> Inr k)
        \<longleftrightarrow> k \<notin> keys_of U pre"
    unfolding keys_of_def by (auto simp: all_set_conv_all_nth [of pre])
  moreover have "(\<forall>j \<in> set [0..<length pre]. name_present U ((pre @ s # rest) ! j) = Inr True \<longrightarrow>
                      composite_key U ((pre @ s # rest) ! j) \<noteq> composite_key U ((pre @ s # rest) ! length pre))
        \<longleftrightarrow> (\<forall>j \<in> set [0..<length pre]. name_present U (pre ! j) = Inr True \<longrightarrow> composite_key U (pre ! j) \<noteq> Inr k)"
    using assms by (simp add: nth_append)
  ultimately show ?thesis unfolding keeps_def by (simp add: nth_append)
qed

lemma clean_loop_char:
  assumes "\<forall>s\<in>set rest. has_name_and_category s"
  shows "\<exists>cs. clean_loop U clk (length pre) rest (keys_of U pre) cleaned = Inr (cleaned @ cs) \<and>
              map Inr cs = map (\<lambda>i. cleanedScheme U clk i ((pre @ rest) ! i))
                               (filter (keeps U (pre @ rest)) [length pre..<length pre + length rest])"
  using assms
proof (induction rest arbitrary: pre cleaned)
  case Nil
  show ?case by simp
next
  case (Cons s rest)
  have wf: "has_name_and_category s" using Cons.prems by simp
  obtain k where k: "composite_key U s = Inr k" using wf_key [OF wf] by blast
  obtain b where b: "name_present U s = Inr b" using wf_present [OF wf] by blast
  obtain c where c: "cleanedScheme U clk (length pre) s = Inr c" using wf_cleaned [OF wf] by blast
  have split: "[length pre..<length pre + length (s # rest)] =
               length pre # [length (pre @ [s])..<length (pre @ [s]) + length rest]"
    using upt_conv_Cons [of "length pre" "length pre + length (s # rest)"] by (simp del: upt_Suc)
  have app: "pre @ s # rest = (pre @ [s]) @ rest" by simp
  have rest_wf: "\<forall>s\<in>set rest. has_name_and_category s" using Cons.prems by simp
  note IH = Cons.IH [OF rest_wf, of "pre @ [s]"]
  show ?case
  proof (cases "b \<and> k \<notin> keys_of U pre")
    case True
    then have kp: "keeps U (pre @ s # rest) (length pre)" using keeps_here [OF k] b by simp
    have seen: "insert k (keys_of U pre) = keys_of U (pre @ [s])"
      using True b k by (auto simp: keys_of_snoc)
    obtain cs where cs: "clean_loop U clk (length (pre @ [s])) rest (keys_of U (pre @ [s])) (cleaned @ [c]) = Inr ((cleaned @ [c]) @ cs)"
       and m: "map Inr cs = map (\<lambda>i. cleanedScheme U clk i (((pre @ [s]) @ rest) ! i))
                               (filter (keeps U ((pre @ [s]) @ rest)) [length (pre @ [s])..<length (pre @ [s]) + length rest])"
      using IH [of "cleaned @ [c]"] by blast
    have "clean_loop U clk (length pre) (s # rest) (keys_of U pre) cleaned = Inr (cleaned @ (c # cs))"
      using True k b c cs seen by simp
    moreover have "map Inr (c # cs) = map (\<lambda>i. cleanedScheme U clk i ((pre @ s # rest) ! i))
                               (filter (keeps U (pre @ s # rest)) [length pre..<length pre + length (s # rest)])"
      unfolding split using kp m c by (simp del: upt_Suc)
    ultimately show ?thesis by blast
  next
    case False
    then have kp: "\<not> keeps U (pre @ s # rest) (length pre)" using keeps_here [OF k] b by simp
    have seen: "keys_of U pre = keys_of U (pre @ [s])"
      using False b k by (auto simp: keys_of_snoc)
    obtain cs where cs: "clean_loop U clk (length (pre @ [s])) rest (keys_of U (pre @ [s])) cleaned = Inr (cleaned @ cs)"
       and m: "map Inr cs = map (\<lambda>i. cleanedScheme U clk i (((pre @ [s]) @ rest) ! i))
                               (filter (keeps U ((pre @ [s]) @ rest)) [length (pre @ [s])..<length (pre @ [s]) + length rest])"
      using IH [of cleaned] by blast
    have "clean_loop U clk (length pre) (s # rest) (keys_of U pre) cleaned = Inr (cleaned @ cs)"
      using False k b c cs seen by (cases b) auto
    moreover have "map Inr cs = map (\<lambda>i. cleanedScheme U clk i ((pre @ s # rest) ! i))
                               (filter (keeps U (pre @ s # rest)) [length pre..<length pre + length (s # rest)])"
      unfolding split using kp m by (simp del: upt_Suc)
    ultimately show ?thesis by blast
  qed
qed

lemma cleanAndDeduplicateData_char:
  assumes "\<forall>s\<in>set xs. has_name_and_category s"
  shows "\<exists>out. cleanAndDeduplicateData U clk xs = Inr out \<and>
              map Inr out = map (\<lambda>i. cleanedScheme U clk i (xs ! i)) (first_seen U xs)"
proof -
  have k0: "keys_of U [] = {}" by (simp add: keys_of_def)
  have fs: "first_seen U xs = filter (keeps U xs) [0..<length xs]"
    unfolding first_seen_def keeps_def [abs_def] ..
  show ?thesis
    using clean_loop_char [OF assms, of U clk "[]" "[]"] unfolding cleanAndDeduplicateData_def k0 fs by simp
qed




lemma composite_key_error: "composite_key U s = Inl e \<Longrightarrow> \<exists>m. e = TypeError m"
  by (cases "js_get s ''name''"; cases "js_get s ''category''")
     (auto simp: composite_key_def)

lemma clean_loop_throws_iff:
  "(\<exists>m. clean_loop U clk i rest seen cleaned = Inl (TypeError m)) \<longleftrightarrow>
   (\<exists>s \<in> set rest. \<not> has_name_and_category s)"
proof (induction rest arbitrary: i seen cleaned)
  case Nil
  show ?case by simp
next
  case (Cons s rest)
  show ?case
  proof (cases "has_name_and_category s")
    case False
    then obtain e where e: "composite_key U s = Inl e"
      using key_wf [of U s] by (cases "composite_key U s") auto
    then obtain m where "e = TypeError m" using composite_key_error by blast
    with e False show ?thesis by auto
  next
    case True
    obtain k where k: "composite_key U s = Inr k" using wf_key [OF True] by blast
    obtain b where b: "name_present U s = Inr b" using wf_present [OF True] by blast
    obtain c where c: "cleanedScheme U clk i s = Inr c" using wf_cleaned [OF True] by blast
    show ?thesis using True k b c Cons.IH by (cases b) auto
  qed
qed


text \<open>
  C10. \<open>cleanAndDeduplicateData\<close> builds the composite key with
  \<open>toLowerCase()\<close> on \<open>name\<close> and \<open>category\<close> before it tests that the name is
  present. Whenever some record of the input has a \<open>name\<close> or a \<open>category\<close> that is
  not a string (absent included), the call throws a \<open>TypeError\<close>; when every record
  carries both as strings, it returns a list. This holds whatever the engine's
  \<open>toLowerCase\<close> and \<open>trim\<close> compute on strings.
\<close>

theorem cleanAndDeduplicateData_precondition:
  "((\<exists>s \<in> set schemes. \<not> has_name_and_category s) \<longrightarrow>
      (\<exists>m. cleanAndDeduplicateData U clk schemes = Inl (TypeError m))) \<and>
   ((\<forall>s \<in> set schemes. has_name_and_category s) \<longrightarrow>
      (\<exists>out. cleanAndDeduplicateData U clk schemes = Inr out))"
proof (intro conjI impI)
  assume "\<exists>s \<in> set schemes. \<not> has_name_and_category s"
  then show "\<exists>m. cleanAndDeduplicateData U clk schemes = Inl (TypeError m)"
    unfolding cleanAndDeduplicateData_def using clean_loop_throws_iff by blast
next
  assume "\<forall>s \<in> set schemes. has_name_and_category s"
  then show "\<exists>out. cleanAndDeduplicateData U clk schemes = Inr out"
    using cleanAndDeduplicateData_char by blast
qed

theorem cleanAndDeduplicateData_precondition_witness:
  "(\<exists>m. cleanAndDeduplicateData ascii_engine sample_clock
          [pm_kisan, [(''id'', JStr ''myscheme-api-1''), (''name'', JStr '''')]] = Inl (TypeError m)) \<and>
   (\<exists>out. cleanAndDeduplicateData ascii_engine sample_clock [pm_kisan, nsp_merit] = Inr out)"
proof
  show "\<exists>m. cleanAndDeduplicateData ascii_engine sample_clock
          [pm_kisan, [(''id'', JStr ''myscheme-api-1''), (''name'', JStr '''')]] = Inl (TypeError m)"
    using cleanAndDeduplicateData_precondition
      [of "[pm_kisan, [(''id'', JStr ''myscheme-api-1''), (''name'', JStr '''')]]" ascii_engine sample_clock]
    by (simp add: has_name_and_category_def js_get_def pm_kisan_def)
  show "\<exists>out. cleanAndDeduplicateData ascii_engine sample_clock [pm_kisan, nsp_merit] = Inr out"
    using cleanAndDeduplicateData_precondition [of "[pm_kisan, nsp_merit]" ascii_engine sample_clock]
    by (simp add: has_name_and_category_def js_get_def pm_kisan_def nsp_merit_def)
qed



lemma first_seen_bound: "j \<in> set (first_seen U xs) \<Longrightarrow> j < length xs"
  by (simp add: first_seen_def)








text \<open>
  Outside the normalised inputs the code does not keep the keys of its output apart,
  because the key is taken before the name is trimmed and before an empty category is
  replaced by \<open>General\<close>: a name with surrounding blanks and the same name without
  them give two output records with one and the same name and category.
\<close>

lemma cleanAndDeduplicateData_untrimmed_pair:
  "(case cleanAndDeduplicateData ascii_engine sample_clock
      [[(''id'', JStr ''s1''), (''name'', JStr '' PM Kisan ''), (''category'', JStr ''Agriculture'')],
       [(''id'', JStr ''s2''), (''name'', JStr ''PM Kisan''), (''category'', JStr ''Agriculture'')]] of
      Inl e \<Rightarrow> False
    | Inr out \<Rightarrow>
        map (\<lambda>c. js_get c ''id'') out = [JStr ''s1'', JStr ''s2''] \<and>
        map (\<lambda>c. js_get c ''name'') out = [JStr ''PM Kisan'', JStr ''PM Kisan''] \<and>
        map (\<lambda>c. js_get c ''category'') out = [JStr ''Agriculture'', JStr ''Agriculture''])"
  by code_simp


subsection \<open>Double-precision arithmetic\<close>

text \<open>Rounding leaves a value of the format as it is: any integer significand of 53
  bits scaled by a power of two within the exponent range, hence every integer below
  \<open>2^53\<close> in magnitude. A power of two from \<open>2^1024\<close> on rounds to infinity.\<close>

lemma round_half_even_int: "round_half_even (of_int k) = k"
  by (simp add: round_half_even_def)

lemma round_double_0: "round_double 0 = Fin 0"
  by (simp add: round_double_def)

lemma exact_scaled:
  fixes m e :: int
  assumes m: "2 ^ 52 \<le> \<bar>m\<bar>" "\<bar>m\<bar> < 2 ^ 53" and e: "- 1074 \<le> e" "e \<le> 971"
  shows "round_double (of_int m * 2 powr of_int e) = Fin (of_int m * 2 powr of_int e)"
proof -
  let ?r = "of_int m * 2 powr of_int e :: real"
  have m0: "m \<noteq> 0" using m by auto
  have r0: "?r \<noteq> 0" using m0 by simp
  have absr: "\<bar>?r\<bar> = of_int \<bar>m\<bar> * 2 powr of_int e" by (simp add: abs_mult)
  have am1: "(2::real) ^ 52 \<le> of_int \<bar>m\<bar>" using m(1) by (metis of_int_le_iff of_int_numeral of_int_power)
  have am2: "of_int \<bar>m\<bar> < (2::real) ^ 53" using m(2) by (metis of_int_less_iff of_int_numeral of_int_power)
  have l1: "52 \<le> log 2 (of_int \<bar>m\<bar>)"
    using am1 m0 by (simp add: le_log_iff)
  have l2: "log 2 (of_int \<bar>m\<bar>) < 53"
    using am2 m0 by (simp add: log_less_iff)
  have lg: "log 2 \<bar>?r\<bar> = log 2 (of_int \<bar>m\<bar>) + of_int e"
    unfolding absr using m0 by (simp add: log_mult log_powr)
  have fl: "\<lfloor>log 2 \<bar>?r\<bar>\<rfloor> = 52 + e"
    unfolding lg using l1 l2 by (simp add: floor_eq_iff) 
  have ee: "max (- 1074) (\<lfloor>log 2 \<bar>?r\<bar>\<rfloor> - 52) = e" using fl e by simp
  have q: "?r / 2 powr of_int e = of_int m" by simp
  have bound: "\<bar>?r\<bar> < 2 ^ 1024"
  proof -
    have "2 powr of_int e \<le> (2::real) powr of_int 971"
      using e(2) by (intro powr_mono) simp_all
    then have "\<bar>?r\<bar> \<le> of_int \<bar>m\<bar> * 2 powr of_int 971"
      unfolding absr by (intro mult_left_mono) simp_all
    also have "\<dots> < 2 ^ 53 * 2 powr of_int 971"
      using am2 by (intro mult_strict_right_mono) simp_all
    also have "\<dots> = 2 ^ 1024" by simp
    finally show ?thesis .
  qed
  show ?thesis
    using r0 bound unfolding round_double_def ee Let_def q round_half_even_int by simp
qed

lemma exact_int:
  fixes n :: int
  assumes "\<bar>n\<bar> < 2 ^ 53"
  shows "round_double (of_int n) = Fin (of_int n)"
proof (cases "n = 0")
  case True
  then show ?thesis by (simp add: round_double_0)
next
  case False
  then have "1 \<le> nat \<bar>n\<bar>" by simp
  then obtain L where L1: "2 ^ L \<le> nat \<bar>n\<bar>" and L2: "nat \<bar>n\<bar> < 2 ^ (L + 1)"
    using ex_power_ivl1 [of 2 "nat \<bar>n\<bar>"] by auto
  have "int (2 ^ L) \<le> int (nat \<bar>n\<bar>)" using L1 by (simp only: of_nat_le_iff)
  then have i1: "(2::int) ^ L \<le> \<bar>n\<bar>" by simp
  have "int (nat \<bar>n\<bar>) < int (2 ^ (L + 1))" using L2 by (simp only: of_nat_less_iff)
  then have i2: "\<bar>n\<bar> < (2::int) ^ (L + 1)" by simp
  have lt: "(2::int) ^ L < 2 ^ 53" using i1 assms by linarith
  have "L < 53"
  proof (rule power_less_imp_less_exp)
    show "(1::int) < 2" by simp
    show "(2::int) ^ L < 2 ^ 53" by (rule lt)
  qed
  then have L52: "L \<le> 52" by simp
  define m where "m = n * 2 ^ (52 - L)"
  have am: "\<bar>m\<bar> = \<bar>n\<bar> * 2 ^ (52 - L)" by (simp add: m_def abs_mult)
  have split52: "L + (52 - L) = 52" using L52 by simp
  have "(2::int) ^ 52 = 2 ^ (L + (52 - L))" by (simp only: split52)
  also have "\<dots> = 2 ^ L * 2 ^ (52 - L)" by (rule power_add)
  also have "\<dots> \<le> \<bar>n\<bar> * 2 ^ (52 - L)" using i1 by (intro mult_right_mono) simp_all
  finally have m1: "2 ^ 52 \<le> \<bar>m\<bar>" unfolding am .
  have "\<bar>n\<bar> * 2 ^ (52 - L) < (2::int) ^ (L + 1) * 2 ^ (52 - L)"
    using i2 by (intro mult_strict_right_mono) simp_all
  also have "\<dots> = 2 ^ (L + 1 + (52 - L))" by (rule power_add [symmetric])
  also have "L + 1 + (52 - L) = 53" using L52 by simp
  finally have m2: "\<bar>m\<bar> < 2 ^ 53" unfolding am .
  define e where "e = int L - 52"
  have e1: "- 1074 \<le> e" and e2: "e \<le> 971" using L52 by (simp_all add: e_def)
  have "(2::real) powr of_int e = 2 powr (- real (52 - L))"
    using L52 by (simp add: e_def of_nat_diff)
  also have "\<dots> = inverse (2 ^ (52 - L))"
    by (simp only: powr_minus powr_realpow [of 2, simplified])
  finally have p: "(2::real) powr of_int e = inverse (2 ^ (52 - L))" .
  have v: "of_int m * 2 powr of_int e = (of_int n :: real)"
    unfolding p by (simp add: m_def)
  show ?thesis
    using exact_scaled [OF m1 m2 e1 e2] unfolding v .
qed

lemma exact_nat_small: "exact 0" "exact 1" "exact 5" "exact 9" "exact 16" "exact 25"
  using exact_int [of 0] exact_int [of 1] exact_int [of 5] exact_int [of 9] exact_int [of 16] exact_int [of 25]
  by (simp_all add: exact_def)

lemma round_double_pow2_overflow:
  assumes "1024 \<le> k"
  shows "round_double (2 ^ k) = PInf"
proof -
  have k52: "52 \<le> k" using assms by simp
  have lg: "\<lfloor>log 2 \<bar>(2::real) ^ k\<bar>\<rfloor> = int k"
    by (simp add: log_nat_power)
  have ee: "max (- 1074) (\<lfloor>log 2 \<bar>(2::real) ^ k\<bar>\<rfloor> - 52) = int (k - 52)"
    unfolding lg using k52 by simp
  have pw: "(2::real) powr of_int (int (k - 52)) = 2 ^ (k - 52)"
    by (simp add: powr_realpow)
  have q: "(2::real) ^ k / 2 ^ (k - 52) = of_int (2 ^ 52)"
  proof -
    have "52 + (k - 52) = k" using k52 by simp
    then have "(2::real) ^ k = 2 ^ (52 + (k - 52))" by (simp only:)
    also have "\<dots> = 2 ^ 52 * 2 ^ (k - 52)" by (rule power_add)
    finally show ?thesis by simp
  qed
  have v: "of_int (2 ^ 52) * (2::real) ^ (k - 52) = 2 ^ k"
    using q by (simp add: field_simps)
  have big: "(2::real) ^ 1024 \<le> 2 ^ k" using assms by (intro power_increasing) simp_all
  show ?thesis
    unfolding round_double_def ee Let_def pw q round_half_even_int v
    using big by simp
qed

text \<open>A power of two below a quarter of the smallest subnormal rounds to zero.\<close>

lemma round_double_underflow:
  assumes "1076 \<le> k"
  shows "round_double (1 / 2 ^ k) = Fin 0"
proof -
  let ?r = "1 / 2 ^ k :: real"
  have r0: "?r \<noteq> 0" by simp
  have "log 2 \<bar>?r\<bar> = of_int (- int k)"
    by (simp add: log_divide log_nat_power)
  then have lg: "\<lfloor>log 2 \<bar>?r\<bar>\<rfloor> = - int k"
    by (simp only: floor_of_int)
  have ee: "max (- 1074) (\<lfloor>log 2 \<bar>?r\<bar>\<rfloor> - 52) = - 1074"
    unfolding lg using assms by simp
  have pw: "(2::real) powr of_int (- 1074) = 1 / 2 ^ 1074"
    by (simp add: powr_minus_divide)
  have "1074 + (k - 1074) = k" using assms by simp
  then have "(2::real) ^ k = 2 ^ (1074 + (k - 1074))" by (simp only:)
  also have "\<dots> = 2 ^ 1074 * 2 ^ (k - 1074)" by (rule power_add)
  finally have q: "?r / (1 / 2 ^ 1074) = 1 / 2 ^ (k - 1074)" by simp
  have "(2::real) ^ 2 \<le> 2 ^ (k - 1074)" using assms by (intro power_increasing) simp_all
  then have small: "1 / 2 ^ (k - 1074) \<le> (1 / 4 :: real)"
    by (simp add: field_simps)
  have pos: "0 < 1 / (2::real) ^ (k - 1074)" by simp
  have fl: "\<lfloor>1 / (2::real) ^ (k - 1074)\<rfloor> = 0"
    using small pos by (simp only: floor_eq_iff) simp
  have rz: "round_half_even (1 / 2 ^ (k - 1074)) = 0"
    using small unfolding round_half_even_def fl Let_def by simp
  show ?thesis
    unfolding round_double_def ee Let_def pw q rz using r0 by simp
qed

lemma exact_pow2:
  assumes "k \<le> 1023"
  shows "exact (2 ^ k)"
proof -
  have e: "- 1074 \<le> int k - 52" "int k - 52 \<le> 971" using assms by simp_all
  have m: "(2::int) ^ 52 \<le> \<bar>2 ^ 52\<bar>" "\<bar>(2::int) ^ 52\<bar> < 2 ^ 53" by simp_all
  have "(2::real) powr of_int (int k - 52) = 2 powr (real k - 52)" by simp
  also have "\<dots> = 2 powr real k / 2 powr 52" by (rule powr_diff)
  also have "\<dots> = 2 ^ k / 2 ^ 52" by (simp add: powr_realpow)
  finally have v: "of_int (2 ^ 52) * 2 powr of_int (int k - 52) = (2::real) ^ k" by simp
  show ?thesis
    using exact_scaled [OF m e] unfolding v exact_def .
qed

lemma exact_inv_pow2:
  assumes "k \<le> 1022"
  shows "exact (1 / 2 ^ k)"
proof -
  have e: "- 1074 \<le> - int k - 52" "- int k - 52 \<le> 971" using assms by simp_all
  have m: "(2::int) ^ 52 \<le> \<bar>2 ^ 52\<bar>" "\<bar>(2::int) ^ 52\<bar> < 2 ^ 53" by simp_all
  have "(2::real) powr of_int (- int k - 52) = 2 powr (- (real k + 52))" by simp
  also have "\<dots> = inverse (2 powr (real k + 52))" by (rule powr_minus)
  also have "\<dots> = inverse (2 powr real k * 2 powr 52)" by (simp only: powr_add)
  also have "\<dots> = inverse (2 ^ k * 2 ^ 52)" by (simp add: powr_realpow)
  finally have v: "of_int (2 ^ 52) * 2 powr of_int (- int k - 52) = (1 / 2 ^ k :: real)"
    by (simp add: field_simps)
  show ?thesis
    using exact_scaled [OF m e] unfolding v exact_def .
qed

text \<open>Rounding a real of the normal range: the significand is the integer nearest to
  the scaled value.\<close>

lemma round_half_even_near:
  assumes "\<bar>x - of_int m\<bar> < 1 / 2"
  shows "round_half_even x = m"
proof (cases "of_int m \<le> x")
  case True
  then have f: "\<lfloor>x\<rfloor> = m" using assms by (simp add: floor_eq_iff) linarith?
  show ?thesis using assms True unfolding round_half_even_def f Let_def by simp linarith?
next
  case False
  then have f: "\<lfloor>x\<rfloor> = m - 1" using assms by (simp add: floor_eq_iff) linarith?
  show ?thesis using assms False unfolding round_half_even_def f Let_def by simp linarith?
qed

lemma round_double_normal:
  fixes r :: real and k m :: int
  assumes lo: "2 powr of_int k \<le> \<bar>r\<bar>" and hi: "\<bar>r\<bar> < 2 powr of_int (k + 1)"
      and k: "- 1022 \<le> k" "k \<le> 1022"
      and near: "\<bar>r / 2 powr of_int (k - 52) - of_int m\<bar> < 1 / 2"
  shows "round_double r = Fin (of_int m * 2 powr of_int (k - 52))"
proof -
  have pos: "0 < \<bar>r\<bar>" using lo powr_gt_zero [of 2 "of_int k"] by linarith
  then have r0: "r \<noteq> 0" by simp
  have l1: "of_int k \<le> log 2 \<bar>r\<bar>" using lo pos by (simp add: le_log_iff)
  have l2: "log 2 \<bar>r\<bar> < of_int (k + 1)" using hi pos by (simp add: log_less_iff)
  have fl: "\<lfloor>log 2 \<bar>r\<bar>\<rfloor> = k" using l1 l2 by (simp add: floor_eq_iff)
  have ee: "max (- 1074) (\<lfloor>log 2 \<bar>r\<bar>\<rfloor> - 52) = k - 52" unfolding fl using k by simp
  have rm: "round_half_even (r / 2 powr of_int (k - 52)) = m"
    using near by (rule round_half_even_near)
  have "\<bar>r\<bar> / 2 powr of_int (k - 52) < 2 powr of_int (k + 1) / 2 powr of_int (k - 52)"
    using hi by (simp add: divide_strict_right_mono)
  also have "\<dots> = 2 powr (of_int (k + 1) - of_int (k - 52))" by (rule powr_diff [symmetric])
  also have "\<dots> = 2 powr 53" by simp
  finally have q: "\<bar>r / 2 powr of_int (k - 52)\<bar> < 2 powr 53" by simp
  have "\<bar>of_int m :: real\<bar> \<le> \<bar>r / 2 powr of_int (k - 52)\<bar> + 1 / 2" using near by linarith
  then have "\<bar>of_int m :: real\<bar> < 2 powr 53 + 1 / 2" using q by linarith
  then have "\<bar>of_int m :: real\<bar> < of_int (2 ^ 53) + 1 / 2" by simp
  then have "of_int \<bar>m\<bar> < (of_int (2 ^ 53 + 1) :: real)" by simp
  then have "\<bar>m\<bar> < 2 ^ 53 + 1" by (simp only: of_int_less_iff)
  then have "\<bar>m\<bar> \<le> 2 ^ 53" by simp
  then have mb: "\<bar>of_int m :: real\<bar> \<le> 2 powr 53"
    by (metis of_int_abs of_int_le_iff of_int_numeral of_int_power powr_numeral zero_le_numeral)
  have "\<bar>of_int m * 2 powr of_int (k - 52)\<bar> = \<bar>of_int m :: real\<bar> * 2 powr of_int (k - 52)"
    by (simp add: abs_mult)
  also have "\<dots> \<le> 2 powr 53 * 2 powr of_int (k - 52)"
    using mb by (intro mult_right_mono) simp_all
  also have "\<dots> = 2 powr (53 + of_int (k - 52))" by (rule powr_add [symmetric])
  also have "\<dots> = 2 powr of_int (k + 1)" by (simp add: add.commute)
  also have "\<dots> \<le> 2 powr of_int 1023" using k by (intro powr_mono) simp_all
  also have "\<dots> < 2 ^ 1024" by simp
  finally have bound: "\<bar>of_int m * 2 powr of_int (k - 52)\<bar> < (2::real) ^ 1024" .
  show ?thesis
    using r0 bound unfolding round_double_def ee Let_def rm by simp
qed


subsection \<open>Cosine similarity\<close>

text \<open>The loop leaves the accumulator of a vector of zeros at zero.\<close>

lemma cosine_loop_zero_left:
  assumes "\<forall>k<length a. a ! k = Fin 0"
  shows "\<exists>d nb. cosine_loop a b i (d0, Fin 0, nb0) = (d, Fin 0, nb)"
  using assms
proof (induction a b i "(d0, Fin 0, nb0)" arbitrary: d0 nb0 rule: cosine_loop.induct)
  case (1 vecA vecB i dotProduct normB)
  show ?case
  proof (cases "i < length vecA")
    case True
    then have z: "vecA ! i = Fin 0" using "1.prems" by simp
    show ?thesis
      using True z "1.hyps" [OF True _ "1.prems"]
      by (subst cosine_loop.simps) (simp add: round_double_0)
  next
    case False
    then show ?thesis by (subst cosine_loop.simps) simp
  qed
qed

lemma cosine_loop_zero_right:
  assumes "\<forall>k<length a. b ! k = Fin 0"
  shows "\<exists>d na. cosine_loop a b i (d0, na0, Fin 0) = (d, na, Fin 0)"
  using assms
proof (induction a b i "(d0, na0, Fin 0)" arbitrary: d0 na0 rule: cosine_loop.induct)
  case (1 vecA vecB i dotProduct normA)
  show ?case
  proof (cases "i < length vecA")
    case True
    then have z: "vecB ! i = Fin 0" using "1.prems" by simp
    show ?thesis
      using True z "1.hyps" [OF True _ "1.prems"]
      by (subst cosine_loop.simps) (simp add: round_double_0)
  next
    case False
    then show ?thesis by (subst cosine_loop.simps) simp
  qed
qed

lemma cosineSimilarity_zero:
  assumes len: "length a = length b" and z: "set a \<subseteq> {Fin 0} \<or> set b \<subseteq> {Fin 0}"
  shows "cosineSimilarity a b = Inr (Fin 0)"
proof -
  from z show ?thesis
  proof
    assume "set a \<subseteq> {Fin 0}"
    then have "\<forall>k<length a. a ! k = Fin 0" using nth_mem by blast
    then obtain d nb where "cosine_loop a b 0 (Fin 0, Fin 0, Fin 0) = (d, Fin 0, nb)"
      using cosine_loop_zero_left by blast
    then show ?thesis using len by (simp add: cosineSimilarity_def round_double_0 Let_def)
  next
    assume "set b \<subseteq> {Fin 0}"
    then have "\<forall>k<length a. b ! k = Fin 0" using nth_mem len by (metis insert_absorb singleton_insert_inj_eq' subset_iff)
    then obtain d na where "cosine_loop a b 0 (Fin 0, Fin 0, Fin 0) = (d, na, Fin 0)"
      using cosine_loop_zero_right by blast
    then show ?thesis using len by (simp add: cosineSimilarity_def round_double_0 Let_def)
  qed
qed

lemma cosineSimilarity_returns:
  "length a = length b \<Longrightarrow> \<exists>c. cosineSimilarity a b = Inr c"
  by (cases "cosine_loop a b 0 (Fin 0, Fin 0, Fin 0)") (simp add: cosineSimilarity_def Let_def)

lemma cauchy_schwarz_step:
  fixes A B D u v :: real
  assumes "D\<^sup>2 \<le> A * B" and "0 \<le> A" and "0 \<le> B"
  shows "(D + u * v)\<^sup>2 \<le> (A + u\<^sup>2) * (B + v\<^sup>2)"
proof -
  have "4 * D\<^sup>2 * (u\<^sup>2 * v\<^sup>2) \<le> 4 * (A * B) * (u\<^sup>2 * v\<^sup>2)"
    using assms(1) by (intro mult_right_mono mult_left_mono) simp_all
  moreover have "(A * v\<^sup>2 + B * u\<^sup>2)\<^sup>2 = (A * v\<^sup>2 - B * u\<^sup>2)\<^sup>2 + 4 * (A * B) * (u\<^sup>2 * v\<^sup>2)"
    by (simp add: power2_eq_square algebra_simps)
  moreover have "0 \<le> (A * v\<^sup>2 - B * u\<^sup>2)\<^sup>2" by simp
  moreover have "(2 * D * u * v)\<^sup>2 = 4 * D\<^sup>2 * (u\<^sup>2 * v\<^sup>2)"
    by (simp add: power2_eq_square algebra_simps)
  ultimately have "(2 * D * u * v)\<^sup>2 \<le> (A * v\<^sup>2 + B * u\<^sup>2)\<^sup>2" by linarith
  moreover have "0 \<le> A * v\<^sup>2 + B * u\<^sup>2" using assms(2,3) by simp
  ultimately have "2 * D * u * v \<le> A * v\<^sup>2 + B * u\<^sup>2" by (rule power2_le_imp_le)
  moreover have "(D + u * v)\<^sup>2 = D\<^sup>2 + 2 * D * u * v + u\<^sup>2 * v\<^sup>2"
    by (simp add: power2_eq_square algebra_simps)
  moreover have "(A + u\<^sup>2) * (B + v\<^sup>2) = A * B + (A * v\<^sup>2 + B * u\<^sup>2) + u\<^sup>2 * v\<^sup>2"
    by (simp add: algebra_simps)
  ultimately show ?thesis using assms(1) by linarith
qed

lemma cauchy_schwarz_sum:
  fixes f g :: "nat \<Rightarrow> real"
  shows "(\<Sum>k<n. f k * g k)\<^sup>2 \<le> (\<Sum>k<n. f k * f k) * (\<Sum>k<n. g k * g k)"
proof (induction n)
  case 0
  show ?case by simp
next
  case (Suc n)
  have "0 \<le> (\<Sum>k<n. f k * f k)" and "0 \<le> (\<Sum>k<n. g k * g k)"
    by (simp_all add: sum_nonneg)
  from cauchy_schwarz_step [OF Suc.IH this, of "f n" "g n"]
  show ?case by (simp add: power2_eq_square)
qed

lemma dot_cauchy_schwarz: "(dot a b)\<^sup>2 \<le> dot a a * dot b b" if "length a = length b"
  using cauchy_schwarz_sum [of "\<lambda>k. a ! k" "\<lambda>k. b ! k" "length a"] that
  by (simp add: dot_def)

lemma dot_self_nonneg: "0 \<le> dot a a"
  by (simp add: dot_def sum_nonneg)

lemma dot_self_pos:
  assumes "\<exists>x \<in> set a. x \<noteq> 0"
  shows "0 < dot a a"
proof -
  obtain k where k: "k < length a" and nz: "a ! k \<noteq> 0"
    using assms by (auto simp: in_set_conv_nth)
  have "dot a a \<noteq> 0"
  proof
    assume "dot a a = 0"
    then have "\<forall>j \<in> {..<length a}. a ! j * a ! j = 0"
      unfolding dot_def by (subst (asm) sum_nonneg_eq_0_iff) simp_all
    then show False using k nz by simp
  qed
  then show ?thesis using dot_self_nonneg [of a] by linarith
qed

lemma abs_dot_le:
  assumes "length a = length b"
  shows "\<bar>dot a b\<bar> \<le> euclidean_norm a * euclidean_norm b"
proof -
  have "\<bar>dot a b\<bar> = sqrt ((dot a b)\<^sup>2)" by simp
  also have "\<dots> \<le> sqrt (dot a a * dot b b)"
    using dot_cauchy_schwarz [OF assms] by (rule real_sqrt_le_mono)
  also have "\<dots> = euclidean_norm a * euclidean_norm b"
    by (simp add: euclidean_norm_def real_sqrt_mult)
  finally show ?thesis .
qed

text \<open>A run without rounding computes the three sums, the norms and the quotient
  exactly.\<close>

lemma cosine_loop_exact:
  assumes len: "length x = length y"
      and ex: "\<forall>i<length x.
        exact (x ! i * y ! i) \<and> exact (x ! i * x ! i) \<and> exact (y ! i * y ! i) \<and>
        exact (\<Sum>k<Suc i. x ! k * y ! k) \<and>
        exact (\<Sum>k<Suc i. x ! k * x ! k) \<and>
        exact (\<Sum>k<Suc i. y ! k * y ! k)"
      and i: "i \<le> length x"
  shows "cosine_loop (map Fin x) (map Fin y) i
           (Fin (\<Sum>k<i. x ! k * y ! k), Fin (\<Sum>k<i. x ! k * x ! k), Fin (\<Sum>k<i. y ! k * y ! k)) =
         (Fin (dot x y), Fin (dot x x), Fin (dot y y))"
  using i
proof (induction "length x - i" arbitrary: i)
  case 0
  then have "i = length x" by simp
  then show ?case
    using len by (subst cosine_loop.simps) (simp add: dot_def)
next
  case (Suc n)
  then have lt: "i < length x" by simp
  have p: "round_double (x ! i * y ! i) = Fin (x ! i * y ! i)"
          "round_double (x ! i * x ! i) = Fin (x ! i * x ! i)"
          "round_double (y ! i * y ! i) = Fin (y ! i * y ! i)"
    using ex lt by (simp_all add: exact_def)
  have s: "round_double ((\<Sum>k<i. x ! k * y ! k) + x ! i * y ! i) = Fin (\<Sum>k<Suc i. x ! k * y ! k)"
          "round_double ((\<Sum>k<i. x ! k * x ! k) + x ! i * x ! i) = Fin (\<Sum>k<Suc i. x ! k * x ! k)"
          "round_double ((\<Sum>k<i. y ! k * y ! k) + y ! i * y ! i) = Fin (\<Sum>k<Suc i. y ! k * y ! k)"
    using ex lt by (simp_all add: exact_def)
  have n: "n = length x - Suc i" using Suc.hyps(2) by simp
  have le: "Suc i \<le> length x" using lt by simp
  have step: "cosine_loop (map Fin x) (map Fin y) i
           (Fin (\<Sum>k<i. x ! k * y ! k), Fin (\<Sum>k<i. x ! k * x ! k), Fin (\<Sum>k<i. y ! k * y ! k)) =
        cosine_loop (map Fin x) (map Fin y) (Suc i)
           (Fin (\<Sum>k<Suc i. x ! k * y ! k), Fin (\<Sum>k<Suc i. x ! k * x ! k), Fin (\<Sum>k<Suc i. y ! k * y ! k))"
    using lt len by (subst cosine_loop.simps) (simp add: p s del: sum.lessThan_Suc)
  show ?case unfolding step by (rule Suc.hyps(1) [OF n le])
qed

lemma cosine_bounds:
  assumes "length x = length y"
  shows "- 1 \<le> cosine x y \<and> cosine x y \<le> 1"
proof (cases "euclidean_norm x = 0 \<or> euclidean_norm y = 0")
  case True
  then show ?thesis by (simp add: cosine_def)
next
  case False
  have na: "0 \<le> euclidean_norm x" and nb: "0 \<le> euclidean_norm y"
    by (simp_all add: euclidean_norm_def dot_self_nonneg)
  have pos: "0 < euclidean_norm x * euclidean_norm y" using False na nb by simp
  have "\<bar>dot x y\<bar> / (euclidean_norm x * euclidean_norm y) \<le> 1"
    using abs_dot_le [OF assms] pos by (simp add: divide_le_eq)
  moreover have "\<bar>dot x y / (euclidean_norm x * euclidean_norm y)\<bar> =
                 \<bar>dot x y\<bar> / (euclidean_norm x * euclidean_norm y)"
    using pos by (simp only: abs_divide abs_of_pos)
  ultimately have "\<bar>dot x y / (euclidean_norm x * euclidean_norm y)\<bar> \<le> 1" by linarith
  then have "- 1 \<le> dot x y / (euclidean_norm x * euclidean_norm y) \<and>
             dot x y / (euclidean_norm x * euclidean_norm y) \<le> 1" by linarith
  then show ?thesis using False by (simp add: cosine_def)
qed

lemma cosine_self:
  assumes "\<exists>v \<in> set x. v \<noteq> 0"
  shows "cosine x x = 1"
proof -
  have p: "0 < dot x x" using dot_self_pos [OF assms] .
  then have s: "sqrt (dot x x) \<noteq> 0" by simp
  have "sqrt (dot x x) * sqrt (dot x x) = dot x x" using p by simp
  then show ?thesis using s p by (simp add: cosine_def euclidean_norm_def)
qed

lemma cosineSimilarity_exact:
  assumes len: "length x = length y" and ex: "exact_run x y"
  shows "cosineSimilarity (map Fin x) (map Fin y) = Inr (Fin (cosine x y))"
proof -
  have loop: "cosine_loop (map Fin x) (map Fin y) 0 (Fin 0, Fin 0, Fin 0) =
                (Fin (dot x y), Fin (dot x x), Fin (dot y y))"
    using cosine_loop_exact [OF len _ le0] ex unfolding exact_run_def by simp
  have na: "dsqrt (Fin (dot x x)) = Fin (euclidean_norm x)"
    using ex dot_self_nonneg [of x] by (simp add: exact_run_def exact_def euclidean_norm_def)
  have nb: "dsqrt (Fin (dot y y)) = Fin (euclidean_norm y)"
    using ex dot_self_nonneg [of y] by (simp add: exact_run_def exact_def euclidean_norm_def)
  have pr: "dmul (Fin (euclidean_norm x)) (Fin (euclidean_norm y)) =
              Fin (euclidean_norm x * euclidean_norm y)"
    using ex by (simp add: exact_run_def exact_def)
  have q: "round_double (dot x y / (euclidean_norm x * euclidean_norm y)) =
              Fin (dot x y / (euclidean_norm x * euclidean_norm y))"
    using ex by (simp add: exact_run_def exact_def)
  show ?thesis
    unfolding cosineSimilarity_def using len
    by (simp add: loop na nb pr q cosine_def Let_def del: dsqrt.simps dmul.simps)
qed

text \<open>
  C6, as amended. \<open>cosineSimilarity\<close> works on double-precision numbers. For vectors
  of different lengths it raises; for vectors of equal length it always returns a
  number, and that number is \<open>0\<close> when one of the vectors consists of zeros only.
  It evaluates \<open>dot(a,b) / (||a|| * ||b||)\<close> with every operation rounded to double
  precision: on a run in which no operation rounds, the result is exactly the cosine of
  the two vectors, which lies between \<open>-1\<close> and \<open>1\<close>, and it is exactly \<open>1\<close> for
  a vector with a non-zero component and itself. Nothing more is promised for a run
  that rounds, overflows or underflows.
\<close>

theorem cosineSimilarity_doubles:
  "(length a \<noteq> length b \<longrightarrow>
      cosineSimilarity a b = Inl (Error ''Vectors must have the same length'')) \<and>
   (length a = length b \<longrightarrow> (\<exists>c. cosineSimilarity a b = Inr c)) \<and>
   (length a = length b \<and> (set a \<subseteq> {Fin 0} \<or> set b \<subseteq> {Fin 0}) \<longrightarrow>
      cosineSimilarity a b = Inr (Fin 0)) \<and>
   (length x = length y \<and> exact_run x y \<longrightarrow>
      cosineSimilarity (map Fin x) (map Fin y) = Inr (Fin (cosine x y)) \<and>
      - 1 \<le> cosine x y \<and> cosine x y \<le> 1) \<and>
   (exact_run x x \<and> (\<exists>v \<in> set x. v \<noteq> 0) \<longrightarrow>
      cosineSimilarity (map Fin x) (map Fin x) = Inr (Fin 1))"
proof (intro conjI impI)
  assume "length a \<noteq> length b"
  then show "cosineSimilarity a b = Inl (Error ''Vectors must have the same length'')"
    by (simp add: cosineSimilarity_def)
next
  assume "length a = length b"
  then show "\<exists>c. cosineSimilarity a b = Inr c" by (rule cosineSimilarity_returns)
next
  assume "length a = length b \<and> (set a \<subseteq> {Fin 0} \<or> set b \<subseteq> {Fin 0})"
  then show "cosineSimilarity a b = Inr (Fin 0)" using cosineSimilarity_zero by blast
next
  assume h: "length x = length y \<and> exact_run x y"
  then show "cosineSimilarity (map Fin x) (map Fin y) = Inr (Fin (cosine x y))"
    using cosineSimilarity_exact by blast
  show "- 1 \<le> cosine x y" using h cosine_bounds by blast
  show "cosine x y \<le> 1" using h cosine_bounds by blast
next
  assume h: "exact_run x x \<and> (\<exists>v \<in> set x. v \<noteq> 0)"
  then have "cosine x x = 1" using cosine_self by blast
  moreover have "cosineSimilarity (map Fin x) (map Fin x) = Inr (Fin (cosine x x))"
    using h cosineSimilarity_exact [of x x] by blast
  ultimately show "cosineSimilarity (map Fin x) (map Fin x) = Inr (Fin 1)" by simp
qed

text \<open>Instances: vectors of lengths one and two; a vector of zeros; and the vector
  \<open>(3, 4)\<close> with itself, where the products 9 and 16, the sum 25, the norm 5 and the
  quotient 1 are all computed without rounding.\<close>

theorem cosineSimilarity_doubles_witness:
  "cosineSimilarity [Fin 1] [Fin 1, Fin 2] = Inl (Error ''Vectors must have the same length'') \<and>
   cosineSimilarity [Fin 0, Fin 0] [Fin 1, Fin 2] = Inr (Fin 0) \<and>
   cosine [3, 4] [3, 4] = 1 \<and>
   cosineSimilarity [Fin 3, Fin 4] [Fin 3, Fin 4] = Inr (Fin 1)"
proof -
  have d: "dot [3, 4] [3, 4] = 25" by (simp add: dot_def)
  have "sqrt 25 = (5::real)" by (rule real_sqrt_unique) simp_all
  then have n: "euclidean_norm [3, 4] = 5" by (simp add: euclidean_norm_def d)
  have ex: "exact_run [3, 4] [3, 4]"
    unfolding exact_run_def n d using exact_nat_small
    by (simp add: All_less_Suc)
  have nz: "\<exists>v \<in> set [3, 4 :: real]. v \<noteq> 0" by simp
  have 1: "cosineSimilarity [Fin 1] [Fin 1, Fin 2] = Inl (Error ''Vectors must have the same length'')"
    using cosineSimilarity_doubles [of "[Fin 1]" "[Fin 1, Fin 2]"] by simp
  have 2: "cosineSimilarity [Fin 0, Fin 0] [Fin 1, Fin 2] = Inr (Fin 0)"
    using cosineSimilarity_doubles [of "[Fin 0, Fin 0]" "[Fin 1, Fin 2]"] by simp
  note inst = cosineSimilarity_doubles [of "[]" "[]" "[3, 4]" "[3, 4]"]
  have 3: "cosineSimilarity (map Fin [3, 4]) (map Fin [3, 4]) = Inr (Fin 1)"
    using inst ex nz by blast
  have 4: "cosineSimilarity (map Fin [3, 4]) (map Fin [3, 4]) = Inr (Fin (cosine [3, 4] [3, 4]))"
    using inst ex by simp
  have 5: "cosine [3, 4] [3, 4] = 1" using 3 4 by simp
  show ?thesis using 1 2 5 3 by simp
qed

text \<open>The run on \<open>(1, 5)\<close> and itself, operation by operation. The sums 1 and 26
  are exact; the square root of 26 is rounded to \<open>5740985595342838 / 2^50\<close>; the
  square of that is rounded to \<open>7318349394477055 / 2^48\<close>, just below 26; and 26
  divided by it is rounded to \<open>1 + 2^-52\<close>.\<close>

lemma sqrt_26: "round_double (sqrt 26) = Fin (5740985595342838 / 2 ^ 50)"
proof -
  have s1: "sqrt (2 ^ 100) = (2 ^ 50 :: real)" by (rule real_sqrt_unique) simp_all
  have "sqrt (26 * 2 ^ 100) = sqrt 26 * sqrt (2 ^ 100)" by (rule real_sqrt_mult)
  then have s: "sqrt 26 * 2 ^ 50 = sqrt (26 * 2 ^ 100)" by (simp only: s1)
  have lo: "5740985595342838 - 1 / 2 < sqrt (26 * 2 ^ 100)"
    by (rule real_less_rsqrt) (simp add: power2_eq_square)
  have hi: "sqrt (26 * 2 ^ 100) < 5740985595342838 + 1 / 2"
    by (rule real_less_lsqrt) (simp_all add: power2_eq_square)
  have "4 \<le> sqrt 26" by (rule real_le_rsqrt) simp
  then have a: "2 powr of_int 2 \<le> \<bar>sqrt 26\<bar>" by simp
  have "sqrt 26 < 8" by (rule real_less_lsqrt) simp_all
  then have b: "\<bar>sqrt 26\<bar> < 2 powr of_int (2 + 1)" by simp
  have p: "(2::real) powr of_int (2 - 52) = 1 / 2 ^ 50"
    by (simp add: powr_minus_divide)
  have q: "sqrt 26 / (1 / 2 ^ 50) = sqrt (26 * 2 ^ 100)" using s by simp
  have i: "(of_int 5740985595342838 :: real) = 5740985595342838" by simp
  have near: "\<bar>sqrt 26 / 2 powr of_int (2 - 52) - of_int 5740985595342838\<bar> < 1 / 2"
    unfolding p q i using lo hi by linarith
  have "round_double (sqrt 26) = Fin (of_int 5740985595342838 * 2 powr of_int (2 - 52))"
    by (rule round_double_normal [OF a b _ _ near]) simp_all
  then show ?thesis unfolding p by simp
qed

lemma norm_product_26:
  "round_double (5740985595342838 / 2 ^ 50 * (5740985595342838 / 2 ^ 50)) =
     Fin (7318349394477055 / 2 ^ 48)"
proof -
  let ?r = "5740985595342838 / 2 ^ 50 * (5740985595342838 / 2 ^ 50) :: real"
  have a: "2 powr of_int 4 \<le> \<bar>?r\<bar>" by simp
  have b: "\<bar>?r\<bar> < 2 powr of_int (4 + 1)" by simp
  have p: "(2::real) powr of_int (4 - 52) = 1 / 2 ^ 48"
    by (simp add: powr_minus_divide)
  have near: "\<bar>?r / 2 powr of_int (4 - 52) - of_int 7318349394477055\<bar> < 1 / 2"
    unfolding p by simp
  have "round_double ?r = Fin (of_int 7318349394477055 * 2 powr of_int (4 - 52))"
    by (rule round_double_normal [OF a b _ _ near]) simp_all
  then show ?thesis unfolding p by simp
qed

lemma quotient_26:
  "round_double (26 / (7318349394477055 / 2 ^ 48)) = Fin (1 + 1 / 2 ^ 52)"
proof -
  let ?r = "26 / (7318349394477055 / 2 ^ 48) :: real"
  have a: "2 powr of_int 0 \<le> \<bar>?r\<bar>" by simp
  have b: "\<bar>?r\<bar> < 2 powr of_int (0 + 1)" by simp
  have p: "(2::real) powr of_int (0 - 52) = 1 / 2 ^ 52"
    by (simp add: powr_minus_divide)
  have near: "\<bar>?r / 2 powr of_int (0 - 52) - of_int 4503599627370497\<bar> < 1 / 2"
    unfolding p by simp
  have "round_double ?r = Fin (of_int 4503599627370497 * 2 powr of_int (0 - 52))"
    by (rule round_double_normal [OF a b _ _ near]) simp_all
  then show ?thesis unfolding p by simp
qed

lemma cosineSimilarity_1_5:
  "cosineSimilarity [Fin 1, Fin 5] [Fin 1, Fin 5] = Inr (Fin (1 + 1 / 2 ^ 52))"
proof -
  have one: "round_double 1 = Fin 1" using exact_int [of 1] by simp
  have r25: "round_double 25 = Fin 25" using exact_int [of 25] by simp
  have r26: "round_double 26 = Fin 26" using exact_int [of 26] by simp
  have l: "cosine_loop [Fin 1, Fin 5] [Fin 1, Fin 5] 0 (Fin 0, Fin 0, Fin 0) = (Fin 26, Fin 26, Fin 26)"
    by (simp add: cosine_loop.simps one r25 r26)
  show ?thesis
    unfolding cosineSimilarity_def l
    using sqrt_26 norm_product_26 quotient_26 by simp
qed

text \<open>
  C6 as stated fails on double-precision numbers. For the vector \<open>(1, 5)\<close> and
  itself the result is \<open>1 + 2^-52\<close>, which is not \<open>1\<close> and lies above the
  bound. The square of \<open>2^600\<close> overflows to infinity, and the similarity of the
  one-component vector \<open>(2^600)\<close> with itself is \<open>Infinity / Infinity = NaN\<close>.
  The square of \<open>2^-600\<close> underflows to zero, and the similarity of the non-zero
  vector \<open>(2^-600)\<close> with itself is \<open>0\<close>. All components are doubles.
\<close>

theorem cosineSimilarity_not_exact:
  "cosineSimilarity [Fin 1, Fin 5] [Fin 1, Fin 5] = Inr (Fin (1 + 1 / 2 ^ 52)) \<and>
   exact (2 ^ 600) \<and> cosineSimilarity [Fin (2 ^ 600)] [Fin (2 ^ 600)] = Inr NaN \<and>
   exact (1 / 2 ^ 600) \<and> cosineSimilarity [Fin (1 / 2 ^ 600)] [Fin (1 / 2 ^ 600)] = Inr (Fin 0)"
proof -
  have e1: "exact (2 ^ 600)" by (rule exact_pow2) simp
  have "(2::real) ^ 600 * 2 ^ 600 = 2 ^ 1200" by (simp flip: power_add)
  then have o: "round_double (2 ^ 600 * 2 ^ 600) = PInf"
    using round_double_pow2_overflow [of 1200] by simp
  have l1: "cosine_loop [Fin (2 ^ 600)] [Fin (2 ^ 600)] 0 (Fin 0, Fin 0, Fin 0) = (PInf, PInf, PInf)"
    using o by (simp add: cosine_loop.simps)
  have c1: "cosineSimilarity [Fin (2 ^ 600)] [Fin (2 ^ 600)] = Inr NaN"
    unfolding cosineSimilarity_def l1 by (simp add: is_neg_def)
  have e2: "exact (1 / 2 ^ 600)" by (rule exact_inv_pow2) simp
  have "(1 / 2 ^ 600) * (1 / 2 ^ 600) = (1 / 2 ^ 1200 :: real)" by (simp flip: power_add)
  then have u: "round_double ((1 / 2 ^ 600) * (1 / 2 ^ 600)) = Fin 0"
    using round_double_underflow [of 1200] by simp
  have l2: "cosine_loop [Fin (1 / 2 ^ 600)] [Fin (1 / 2 ^ 600)] 0 (Fin 0, Fin 0, Fin 0) = (Fin 0, Fin 0, Fin 0)"
    using u by (simp add: cosine_loop.simps round_double_0)
  have c2: "cosineSimilarity [Fin (1 / 2 ^ 600)] [Fin (1 / 2 ^ 600)] = Inr (Fin 0)"
    unfolding cosineSimilarity_def l2 by (simp add: round_double_0)
  show ?thesis using cosineSimilarity_1_5 e1 c1 e2 c2 by simp
qed


subsection \<open>Search\<close>

lemma generateEmbedding_string: "\<exists>v. generateEmbedding E (JStr s) = Inr v"
  by (cases "llm E (JStr s)") (simp_all add: generateEmbedding_def generateSimpleEmbedding_def)

lemma searchInMemoryVectors_empty:
  "inMemoryEmbeddings db = [] \<Longrightarrow> searchInMemoryVectors db q limit = Inr []"
  by (simp add: searchInMemoryVectors_def slice0_def js_sort_def)

text \<open>
  C1. \<open>searchSimilarSchemes\<close> returns a list for every query, limit, environment and
  index state; it never raises. When the embedding of the query cannot be produced,
  when the external store fails the query, when the in-memory scan throws, when the
  external store finds nothing, or when the in-memory index is empty, the list is empty.
\<close>

theorem searchSimilarSchemes_never_throws:
  "(\<exists>results. searchSimilarSchemes E db query limit = Inr results) \<and>
   (\<forall>e. generateEmbedding E query = Inl e \<longrightarrow> searchSimilarSchemes E db query limit = Inr []) \<and>
   (\<forall>q sent e. generateEmbedding E query = Inr q \<and> collection db = Some sent \<and>
       chroma_query E sent q limit = Inl e \<longrightarrow> searchSimilarSchemes E db query limit = Inr []) \<and>
   (\<forall>q e. generateEmbedding E query = Inr q \<and> collection db = None \<and>
       searchInMemoryVectors db q limit = Inl e \<longrightarrow> searchSimilarSchemes E db query limit = Inr []) \<and>
   (\<forall>q sent. generateEmbedding E query = Inr q \<and> collection db = Some sent \<and>
       chroma_query E sent q limit = Inr [] \<longrightarrow> searchSimilarSchemes E db query limit = Inr []) \<and>
   (collection db = None \<and> inMemoryEmbeddings db = [] \<longrightarrow>
       searchSimilarSchemes E db query limit = Inr [])"
proof (intro conjI allI impI)
  show "\<exists>results. searchSimilarSchemes E db query limit = Inr results"
    by (cases "search_try E db query limit") (simp_all add: searchSimilarSchemes_def)
next
  fix e assume "generateEmbedding E query = Inl e"
  then show "searchSimilarSchemes E db query limit = Inr []"
    by (simp add: searchSimilarSchemes_def search_try_def)
next
  fix q sent e
  assume "generateEmbedding E query = Inr q \<and> collection db = Some sent \<and>
       chroma_query E sent q limit = Inl e"
  then show "searchSimilarSchemes E db query limit = Inr []"
    by (simp add: searchSimilarSchemes_def search_try_def)
next
  fix q e
  assume "generateEmbedding E query = Inr q \<and> collection db = None \<and>
       searchInMemoryVectors db q limit = Inl e"
  then show "searchSimilarSchemes E db query limit = Inr []"
    by (simp add: searchSimilarSchemes_def search_try_def)
next
  fix q sent
  assume "generateEmbedding E query = Inr q \<and> collection db = Some sent \<and>
       chroma_query E sent q limit = Inr []"
  then show "searchSimilarSchemes E db query limit = Inr []"
    by (simp add: searchSimilarSchemes_def search_try_def)
next
  assume a: "collection db = None \<and> inMemoryEmbeddings db = []"
  show "searchSimilarSchemes E db query limit = Inr []"
  proof (cases "generateEmbedding E query")
    case (Inl e)
    then show ?thesis by (simp add: searchSimilarSchemes_def search_try_def)
  next
    case (Inr q)
    then show ?thesis
      using a by (simp add: searchSimilarSchemes_def search_try_def searchInMemoryVectors_empty)
  qed
qed

text \<open>Two instances: a stored embedding of three components against a query embedding of
  two makes the in-memory scan throw; a query that is not a string while the embedding
  service is down makes embedding generation throw. Both searches return \<open>[]\<close>.\<close>

theorem searchSimilarSchemes_never_throws_witness:
  "searchSimilarSchemes sample_env mismatched_db (JStr ''farmer income support'') 5 = Inr [] \<and>
   searchSimilarSchemes (sample_env\<lparr>llm := (\<lambda>text. Inl (Error ''model unavailable''))\<rparr>)
     empty_memory_db JUndefined 5 = Inr []"
proof
  have g: "generateEmbedding sample_env (JStr ''farmer income support'') = Inr [Fin 1, Fin 0]"
    by (simp add: generateEmbedding_def sample_env_def)
  have c: "collection mismatched_db = None" by (simp add: mismatched_db_def)
  have s: "searchInMemoryVectors mismatched_db [Fin 1, Fin 0] 5 = Inl (Error ''Vectors must have the same length'')"
    by (simp add: searchInMemoryVectors_def cosineSimilarity_def mismatched_db_def)
  show "searchSimilarSchemes sample_env mismatched_db (JStr ''farmer income support'') 5 = Inr []"
    using searchSimilarSchemes_never_throws
      [of sample_env mismatched_db "JStr ''farmer income support''" 5] g c s
    by simp
  have g2: "generateEmbedding (sample_env\<lparr>llm := (\<lambda>text. Inl (Error ''model unavailable''))\<rparr>) JUndefined =
            Inl (TypeError ''Cannot read properties of undefined (reading toLowerCase)'')"
    by (simp add: generateEmbedding_def generateSimpleEmbedding_def)
  show "searchSimilarSchemes (sample_env\<lparr>llm := (\<lambda>text. Inl (Error ''model unavailable''))\<rparr>)
     empty_memory_db JUndefined 5 = Inr []"
    using searchSimilarSchemes_never_throws
      [of "sample_env\<lparr>llm := (\<lambda>text. Inl (Error ''model unavailable''))\<rparr>" empty_memory_db JUndefined 5] g2
    by simp
qed


subsection \<open>Upsert in the in-memory index\<close>

lemma cosineSimilarity_unit: "cosineSimilarity [Fin 1, Fin 0] [Fin 1, Fin 0] = Inr (Fin 1)"
proof -
  have one: "round_double 1 = Fin 1" using exact_nat_small(2) by (simp add: exact_def)
  have l: "cosine_loop [Fin 1, Fin 0] [Fin 1, Fin 0] 0 (Fin 0, Fin 0, Fin 0) = (Fin 1, Fin 1, Fin 1)"
    by (simp add: cosine_loop.simps round_double_0 one)
  show ?thesis unfolding cosineSimilarity_def l by (simp add: one)
qed

text \<open>
  C3 fails on the code. In in-memory mode, adding two versions of the scheme
  \<open>pm-kisan\<close> one after the other leaves two entries with that id in the index, and a
  search returns both, the older content first.
\<close>

theorem in_memory_upsert_twice:
  "(case addSchemeToVectorDB sample_env empty_memory_db scheme_v1 of
      (r1, db1) \<Rightarrow>
        (case addSchemeToVectorDB sample_env db1 scheme_v2 of
           (r2, db2) \<Rightarrow>
             map mv_id (inMemoryVectors db2) = [JStr ''pm-kisan'', JStr ''pm-kisan''] \<and>
             (case searchSimilarSchemes sample_env db2 (JStr ''pm kisan'') 5 of
                Inl e \<Rightarrow> False
              | Inr results \<Rightarrow>
                  map r_id results = [JStr ''pm-kisan'', JStr ''pm-kisan''] \<and>
                  map r_name results = [JStr ''PM Kisan'', JStr ''PM Kisan Samman Nidhi''])))"
  by (simp add: addSchemeToVectorDB_def addScheme_try_def prepare_def createSchemeText_def
        scheme_metadata_def generateEmbedding_def sample_env_def empty_memory_db_def
        scheme_v1_def scheme_v2_def js_get_def js_or_def
        searchSimilarSchemes_def search_try_def searchInMemoryVectors_def
        cosineSimilarity_unit slice0_def js_sort_def dsub_def positive_def round_double_0)


subsection \<open>Batch ingestion\<close>

lemma chunks_Nil: "chunks c [] = []"
  by (subst chunks.simps) simp

lemma chunks_step: "0 < c \<Longrightarrow> xs \<noteq> [] \<Longrightarrow> chunks c xs = take c xs # chunks c (drop c xs)"
  by (subst chunks.simps) simp

lemma concat_chunks: "0 < c \<Longrightarrow> concat (chunks c xs) = xs"
proof (induction c xs rule: chunks.induct)
  case (1 c xs)
  show ?case
  proof (cases "xs = []")
    case True
    then show ?thesis by (simp add: chunks_Nil)
  next
    case False
    then show ?thesis using "1" by (simp add: chunks_step)
  qed
qed

lemma map_length_chunks:
  "0 < c \<Longrightarrow> map length (chunks c xs) =
     replicate (length xs div c) c @ (if length xs mod c = 0 then [] else [length xs mod c])"
proof (induction c xs rule: chunks.induct)
  case (1 c xs)
  show ?case
  proof (cases "xs = []")
    case True
    then show ?thesis by (simp add: chunks_Nil)
  next
    case False
    note ne = False
    have IH: "map length (chunks c (drop c xs)) =
       replicate (length (drop c xs) div c) c @
         (if length (drop c xs) mod c = 0 then [] else [length (drop c xs) mod c])"
      using "1.IH" "1.prems" ne by simp
    show ?thesis
    proof (cases "c \<le> length xs")
      case True
      have d: "length xs div c = Suc ((length xs - c) div c)"
        using True "1.prems" by (simp add: le_div_geq)
      have m: "length xs mod c = (length xs - c) mod c"
        using True by (simp add: le_mod_geq)
      show ?thesis
        using True "1.prems" ne IH by (simp add: chunks_step d m min_def)
    next
      case False
      then have "length xs < c" by simp
      then show ?thesis
        using "1.prems" ne by (simp add: chunks_step chunks_Nil)
    qed
  qed
qed

lemma ceil_div: "0 < c \<Longrightarrow> (n + c - 1) div c = n div c + (if n mod c = 0 then 0 else 1)" for c n :: nat
proof -
  assume c: "0 < c"
  define q r where "q = n div c" and "r = n mod c"
  have n: "n = q * c + r" and r: "r < c" using c by (simp_all add: q_def r_def)
  show ?thesis
  proof (cases "r = 0")
    case True
    have "(q * c + (c - 1)) div c = q" using c
      by (metis add_cancel_left_right diff_less div_less div_mult_self3
          less_numeral_extra(1) not_gr_zero)
    moreover have "n + c - 1 = q * c + (c - 1)" using n True c by simp
    ultimately show ?thesis using True by (simp add: q_def r_def)
  next
    case False
    have "n + c - 1 = (q + 1) * c + (r - 1)" using n False by (simp add: algebra_simps)
    moreover have "((q + 1) * c + (r - 1)) div c = q + 1" using r
      by (metis Euclidean_Rings.div_eq_0_iff add_cancel_right_right
          add_less_same_cancel1 div_mult_self3 less_imp_diff_less not_add_less1)
    ultimately show ?thesis using False by (simp add: q_def r_def)
  qed
qed

lemma length_chunks: "0 < c \<Longrightarrow> length (chunks c xs) = (length xs + c - 1) div c"
proof -
  assume c: "0 < c"
  have "length (chunks c xs) = length (map length (chunks c xs))" by simp
  also have "\<dots> = length xs div c + (if length xs mod c = 0 then 0 else 1)"
    unfolding map_length_chunks [OF c] by simp
  finally show ?thesis using ceil_div [OF c] by simp
qed

text \<open>A record can be prepared exactly when it is ingestible.\<close>

lemma opt_join_ok: "(\<exists>v. opt_join U x sep = Inr v) \<longleftrightarrow> joinable x"
  by (cases x) (auto simp: joinable_def)

lemma prepare_iff: "(\<exists>p. prepare E s = Inr p) \<longleftrightarrow> ingestible s"
proof
  assume "\<exists>p. prepare E s = Inr p"
  then obtain p where p: "prepare E s = Inr p" by blast
  have t: "\<exists>t. createSchemeText (builtins E) s = Inr t"
    using p by (cases "createSchemeText (builtins E) s") (auto simp: prepare_def)
  have j: "joinable (js_get s ''eligibility'') \<and> joinable (js_get s ''documentsRequired'') \<and>
        joinable (js_get s ''applicationProcedure'') \<and> joinable (js_get s ''tags'')"
    using t opt_join_ok [of "builtins E" _ "'', ''"]
    unfolding createSchemeText_def
    by (auto split: sum.splits)
  then show "ingestible s" by (simp add: ingestible_def)
next
  assume i: "ingestible s"
  obtain a where a: "opt_join (builtins E) (js_get s ''eligibility'') '', '' = Inr a"
    using i opt_join_ok unfolding ingestible_def by blast
  obtain b where b: "opt_join (builtins E) (js_get s ''documentsRequired'') '', '' = Inr b"
    using i opt_join_ok unfolding ingestible_def by blast
  obtain c where c: "opt_join (builtins E) (js_get s ''applicationProcedure'') '', '' = Inr c"
    using i opt_join_ok unfolding ingestible_def by blast
  obtain d where d: "opt_join (builtins E) (js_get s ''tags'') '', '' = Inr d"
    using i opt_join_ok unfolding ingestible_def by blast
  obtain t where t: "createSchemeText (builtins E) s = Inr t"
    by (simp add: createSchemeText_def a b c d)
  obtain v where v: "generateEmbedding E (JStr t) = Inr v"
    using generateEmbedding_string by blast
  show "\<exists>p. prepare E s = Inr p"
    by (simp add: prepare_def t v scheme_metadata_def d)
qed

lemma chunks_subset: "b \<in> set (chunks c xs) \<Longrightarrow> set b \<subseteq> set xs"
proof (induction c xs rule: chunks.induct)
  case (1 c xs)
  show ?case
  proof (cases "c = 0 \<or> xs = []")
    case True
    then show ?thesis using "1.prems" by (subst (asm) chunks.simps) simp
  next
    case False
    then have s: "chunks c xs = take c xs # chunks c (drop c xs)" by (subst chunks.simps) simp
    from "1.prems" s consider "b = take c xs" | "b \<in> set (chunks c (drop c xs))" by auto
    then show ?thesis
    proof cases
      case 1
      then show ?thesis by (simp add: set_take_subset)
    next
      case 2
      then have "set b \<subseteq> set (drop c xs)" using "1.IH" False by simp
      then show ?thesis using set_drop_subset by fastforce
    qed
  qed
qed

lemma build_batch_shape:
  assumes "\<forall>s \<in> set batch. ingestible s"
  shows "\<exists>req'. build_batch E batch req = Inr req' \<and>
           ids req' = ids req @ map (\<lambda>s. js_get s ''id'') batch \<and>
           length (documents req') = length (documents req) + length batch \<and>
           length (metadatas req') = length (metadatas req) + length batch \<and>
           length (embeddings req') = length (embeddings req) + length batch"
  using assms
proof (induction batch arbitrary: req)
  case Nil
  show ?case by simp
next
  case (Cons s batch)
  have "\<exists>p. prepare E s = Inr p" using Cons.prems prepare_iff by simp
  then obtain t emb md where p: "prepare E s = Inr (t, emb, md)"
    by (metis prod_cases3)
  have rest: "\<forall>s \<in> set batch. ingestible s" using Cons.prems by simp
  from Cons.IH [OF rest, of "\<lparr>documents = documents req @ [t], metadatas = metadatas req @ [md],
             ids = ids req @ [js_get s ''id''], embeddings = embeddings req @ [emb]\<rparr>"]
  show ?case using p by simp
qed

lemma planned_all_built:
  assumes "\<forall>s \<in> set schemes. ingestible s"
  shows "\<exists>R. planned_requests E c schemes = map Inr R \<and>
             map ids R = map (map (\<lambda>s. js_get s ''id'')) (chunks c schemes) \<and>
             (\<forall>r \<in> set R. length (documents r) = request_size r \<and>
                             length (metadatas r) = request_size r \<and>
                             length (embeddings r) = request_size r)"
proof -
  have each: "\<exists>r. build_batch E b empty_request = Inr r \<and>
                   ids r = map (\<lambda>s. js_get s ''id'') b \<and>
                   length (documents r) = length b \<and> length (metadatas r) = length b \<and>
                   length (embeddings r) = length b"
    if "b \<in> set (chunks c schemes)" for b
  proof -
    have "\<forall>s \<in> set b. ingestible s" using chunks_subset [OF that] assms by blast
    from build_batch_shape [OF this, of E empty_request]
    show ?thesis by (simp add: empty_request_def)
  qed
  have "\<exists>R. map (\<lambda>b. build_batch E b empty_request) bs = map Inr R \<and>
             map ids R = map (map (\<lambda>s. js_get s ''id'')) bs \<and>
             (\<forall>r \<in> set R. length (documents r) = request_size r \<and>
                             length (metadatas r) = request_size r \<and>
                             length (embeddings r) = request_size r)"
    if "set bs \<subseteq> set (chunks c schemes)" for bs
    using that
  proof (induction bs)
    case Nil
    show ?case by simp
  next
    case (Cons b bs)
    obtain r where r: "build_batch E b empty_request = Inr r"
      and i: "ids r = map (\<lambda>s. js_get s ''id'') b"
      and l: "length (documents r) = length b" "length (metadatas r) = length b"
             "length (embeddings r) = length b"
      using each [of b] Cons.prems by auto
    obtain R where R: "map (\<lambda>b. build_batch E b empty_request) bs = map Inr R"
      and m: "map ids R = map (map (\<lambda>s. js_get s ''id'')) bs"
      and k: "\<forall>r \<in> set R. length (documents r) = request_size r \<and>
                             length (metadatas r) = request_size r \<and>
                             length (embeddings r) = request_size r"
      using Cons.IH Cons.prems by auto
    have "map (\<lambda>b. build_batch E b empty_request) (b # bs) = map Inr (r # R)" using r R by simp
    moreover have "map ids (r # R) = map (map (\<lambda>s. js_get s ''id'')) (b # bs)" using i m by simp
    moreover have "\<forall>r \<in> set (r # R). length (documents r) = request_size r \<and>
                             length (metadatas r) = request_size r \<and>
                             length (embeddings r) = request_size r"
      using k i l by (simp add: request_size_def)
    ultimately show ?case by blast
  qed
  from this [of "chunks c schemes"] show ?thesis by (simp add: planned_requests_def)
qed

text \<open>The loop of the external path carries out the plan.\<close>

lemma chunk_loop_plan:
  assumes c: "0 < c"
  shows "chunk_loop E schemes c start sent =
           Some (run_plan E sent (planned_requests E c (drop start schemes)))"
proof (induction "length schemes - start" arbitrary: start sent rule: less_induct)
  case less
  show ?case
  proof (cases "start < length schemes")
    case False
    then show ?thesis
      by (subst chunk_loop.simps) (simp add: planned_requests_def chunks_Nil)
  next
    case True
    have ne: "drop start schemes \<noteq> []" using True by simp
    have dd: "drop c (drop start schemes) = drop (start + c) schemes" by (simp add: add.commute)
    have pl: "planned_requests E c (drop start schemes) =
                build_batch E (take c (drop start schemes)) empty_request #
                planned_requests E c (drop (start + c) schemes)"
      unfolding planned_requests_def chunks_step [OF c ne] dd by simp
    have "length schemes - (start + c) < length schemes - start" using True c by simp
    note IH = less [OF this]
    show ?thesis
    proof (cases "build_batch E (take c (drop start schemes)) empty_request")
      case (Inl e)
      then show ?thesis using True unfolding pl by (subst chunk_loop.simps) simp
    next
      case (Inr req)
      show ?thesis
      proof (cases "chroma_add E sent req")
        case None
        then show ?thesis using True Inr IH [of "sent @ [req]"] unfolding pl
          by (subst chunk_loop.simps) simp
      next
        case (Some e)
        then show ?thesis using True Inr unfolding pl by (subst chunk_loop.simps) simp
      qed
    qed
  qed
qed

lemma addSchemes_plan:
  assumes "0 < c" and "collection db = Some sent"
  shows "addSchemesToVectorDB E db schemes c =
           Some (fst (run_plan E sent (planned_requests E c schemes)),
                 db\<lparr>collection := Some (snd (run_plan E sent (planned_requests E c schemes)))\<rparr>)"
proof (cases "schemes = []")
  case True
  have "db\<lparr>collection := Some sent\<rparr> = db" using assms(2) by (cases db) simp
  then show ?thesis using True
    by (simp add: addSchemesToVectorDB_def planned_requests_def chunks_Nil)
next
  case False
  obtain r s where rs: "run_plan E sent (planned_requests E c schemes) = (r, s)"
    by (cases "run_plan E sent (planned_requests E c schemes)")
  have "chunk_loop E schemes c 0 sent = Some (r, s)"
    using chunk_loop_plan [OF assms(1), of E schemes 0 sent] rs by simp
  then show ?thesis using False assms(2) rs
    by (cases r) (simp_all add: addSchemesToVectorDB_def)
qed

lemma run_plan_all_ok:
  assumes "\<forall>j<length R. chroma_add E (sent @ take j R) (R ! j) = None"
  shows "run_plan E sent (map Inr R) = (Inr (), sent @ R)"
  using assms
proof (induction R arbitrary: sent)
  case Nil
  show ?case by simp
next
  case (Cons r R)
  have h: "chroma_add E sent r = None" using Cons.prems [rule_format, of 0] by simp
  have "\<forall>j<length R. chroma_add E ((sent @ [r]) @ take j R) (R ! j) = None"
  proof (intro allI impI)
    fix j assume "j < length R"
    then show "chroma_add E ((sent @ [r]) @ take j R) (R ! j) = None"
      using Cons.prems [rule_format, of "Suc j"] by simp
  qed
  from Cons.IH [OF this] show ?case using h by simp
qed

lemma run_plan_first_failure:
  assumes "take (Suc k) P = map Inr R" and "length R = Suc k"
      and "\<forall>j<k. chroma_add E (sent @ take j R) (R ! j) = None"
      and "chroma_add E (sent @ take k R) (R ! k) = Some e"
  shows "run_plan E sent P = (Inl e, sent @ R)"
  using assms
proof (induction k arbitrary: P R sent)
  case 0
  obtain r where R: "R = [r]" using "0.prems"(2) by (cases R) auto
  obtain rest where P: "P = Inr r # rest" using "0.prems"(1) R by (cases P) auto
  show ?case using "0.prems"(4) unfolding R P by simp
next
  case (Suc k)
  obtain r R' where R: "R = r # R'" and lR: "length R' = Suc k"
    using Suc.prems(2) by (cases R) auto
  obtain rest where P: "P = Inr r # rest" and t: "take (Suc k) rest = map Inr R'"
    using Suc.prems(1) R by (cases P) auto
  have h: "chroma_add E sent r = None" using Suc.prems(3) [rule_format, of 0] R by simp
  have a: "\<forall>j<k. chroma_add E ((sent @ [r]) @ take j R') (R' ! j) = None"
  proof (intro allI impI)
    fix j assume "j < k"
    then show "chroma_add E ((sent @ [r]) @ take j R') (R' ! j) = None"
      using Suc.prems(3) [rule_format, of "Suc j"] R by simp
  qed
  have f: "chroma_add E ((sent @ [r]) @ take k R') (R' ! k) = Some e"
    using Suc.prems(4) R by simp
  from Suc.IH [OF t lR a f] show ?case using h unfolding R P by simp
qed

lemma single_request_prepared:
  "prepare E s = Inr (t, emb, md) \<Longrightarrow>
     single_request E s =
       Inr \<lparr>documents = [t], metadatas = [md], ids = [js_get s ''id''], embeddings = [emb]\<rparr>"
  by (simp add: single_request_def empty_request_def)

lemma single_request_failed: "prepare E s = Inl e \<Longrightarrow> single_request E s = Inl e"
  by (simp add: single_request_def)

lemma per_scheme_adds_external:
  assumes "collection db = Some sent"
  shows "per_scheme_adds E xs db = db\<lparr>collection := Some (sent @ single_requests E xs)\<rparr>"
  using assms
proof (induction xs arbitrary: db sent)
  case Nil
  have "db\<lparr>collection := Some sent\<rparr> = db" using Nil.prems by (cases db) simp
  then show ?case by (simp add: single_requests_def)
next
  case (Cons s xs)
  show ?case
  proof (cases "prepare E s")
    case (Inl e)
    have a: "addSchemeToVectorDB E db s = (Inr (), db)"
      using Inl by (simp add: addSchemeToVectorDB_def addScheme_try_def)
    have "single_requests E (s # xs) = single_requests E xs"
      using single_request_failed [OF Inl] by (simp add: single_requests_def)
    then show ?thesis using a Cons.IH [OF Cons.prems] by simp
  next
    case (Inr p)
    obtain t emb md where p: "p = (t, emb, md)" by (cases p)
    define req where "req = \<lparr>documents = [t], metadatas = [md], ids = [js_get s ''id''], embeddings = [emb]\<rparr>"
    have a: "addSchemeToVectorDB E db s = (Inr (), db\<lparr>collection := Some (sent @ [req])\<rparr>)"
      using Inr p Cons.prems by (cases "chroma_add E sent req")
        (simp_all add: addSchemeToVectorDB_def addScheme_try_def req_def Let_def)
    have c: "collection (db\<lparr>collection := Some (sent @ [req])\<rparr>) = Some (sent @ [req])" by simp
    have sr: "single_requests E (s # xs) = req # single_requests E xs"
      using single_request_prepared [of E s t emb md] Inr p by (simp add: single_requests_def req_def)
    show ?thesis using a Cons.IH [OF c] by (simp add: sr)
  qed
qed

lemma single_requests_ids:
  assumes "\<forall>s \<in> set xs. ingestible s"
  shows "map ids (single_requests E xs) = map (\<lambda>s. [js_get s ''id'']) xs"
  using assms
proof (induction xs)
  case Nil
  show ?case by (simp add: single_requests_def)
next
  case (Cons s xs)
  have "\<exists>p. prepare E s = Inr p" using Cons.prems prepare_iff by simp
  then obtain t emb md where p: "prepare E s = Inr (t, emb, md)" by (metis prod_cases3)
  have "single_requests E (s # xs) =
          \<lparr>documents = [t], metadatas = [md], ids = [js_get s ''id''], embeddings = [emb]\<rparr> # single_requests E xs"
    using single_request_prepared [OF p] by (simp add: single_requests_def)
  then show ?case using Cons by simp
qed

lemma trainVectorDatabase_returns:
  assumes "trainVectorDatabase E db schemes = Some (r, db')"
  shows "r = Inr ()"
proof (cases "addSchemesToVectorDB E db schemes (batch_size E)")
  case None
  then show ?thesis using assms by (simp add: trainVectorDatabase_def)
next
  case (Some a)
  obtain res db1 where a: "a = (res, db1)" by (cases a)
  show ?thesis using assms Some a by (cases res) (auto simp: trainVectorDatabase_def)
qed

text \<open>The batch call ends with the error of the first rejected request, having sent
  the requests up to that one; the training stage then sends the single requests.\<close>

lemma batch_abort:
  assumes "0 < c" and "collection db = Some sent"
      and "take (Suc k) (planned_requests E c schemes) = map Inr R" and "length R = Suc k"
      and "\<forall>j<k. chroma_add E (sent @ take j R) (R ! j) = None"
      and "chroma_add E (sent @ take k R) (R ! k) = Some e"
  shows "addSchemesToVectorDB E db schemes c = Some (Inl e, db\<lparr>collection := Some (sent @ R)\<rparr>)"
  using addSchemes_plan [OF assms(1,2), of E schemes] run_plan_first_failure [OF assms(3-6)]
  by simp

lemma batch_fallback:
  assumes "addSchemesToVectorDB E db schemes (batch_size E) =
             Some (Inl e, db\<lparr>collection := Some sent1\<rparr>)"
  shows "trainVectorDatabase E db schemes =
           Some (Inr (), db\<lparr>collection := Some (sent1 @ single_requests E schemes)\<rparr>)"
proof -
  have c: "collection (db\<lparr>collection := Some sent1\<rparr>) = Some sent1" by simp
  show ?thesis
    using assms per_scheme_adds_external [OF c, of E schemes]
    by (simp add: trainVectorDatabase_def)
qed


lemma numbered_ingestible: "ingestible (numbered_scheme i)"
  by (simp add: ingestible_def joinable_def numbered_scheme_def js_get_def)

text \<open>
  C9, as amended. On the external path with a chunk size \<open>c > 0\<close>, for records that
  can be ingested (each of \<open>eligibility\<close>, \<open>documentsRequired\<close>,
  \<open>applicationProcedure\<close> and \<open>tags\<close> absent, \<open>null\<close> or an array), batch
  ingestion sets out to send \<open>ceil(n / c)\<close> requests: the identifiers they carry are
  the identifiers of the records, in order and once each, \<open>c\<close> per request and
  \<open>n mod c\<close> in the last one when that is not zero, and every request carries as many
  documents, metadata rows and embeddings as identifiers. When the store accepts each of
  them as it arrives, the call returns normally and these are exactly the requests it
  has sent.
\<close>

theorem batch_chunking:
  assumes "0 < c"
      and "collection db = Some sent"
      and "\<forall>s \<in> set schemes. ingestible s"
  shows "\<exists>R. planned_requests E c schemes = map Inr R \<and>
           length R = (length schemes + c - 1) div c \<and>
           map request_size R =
             replicate (length schemes div c) c @
               (if length schemes mod c = 0 then [] else [length schemes mod c]) \<and>
           concat (map ids R) = map (\<lambda>s. js_get s ''id'') schemes \<and>
           (\<forall>r \<in> set R. length (documents r) = request_size r \<and>
                           length (metadatas r) = request_size r \<and>
                           length (embeddings r) = request_size r) \<and>
           ((\<forall>j<length R. chroma_add E (sent @ take j R) (R ! j) = None) \<longrightarrow>
              addSchemesToVectorDB E db schemes c =
                Some (Inr (), db\<lparr>collection := Some (sent @ R)\<rparr>))"
proof -
  obtain R where p: "planned_requests E c schemes = map Inr R"
    and m: "map ids R = map (map (\<lambda>s. js_get s ''id'')) (chunks c schemes)"
    and l: "\<forall>r \<in> set R. length (documents r) = request_size r \<and>
                           length (metadatas r) = request_size r \<and>
                           length (embeddings r) = request_size r"
    using planned_all_built [OF assms(3)] by blast
  have "length R = length (map ids R)" by simp
  also have "\<dots> = length (chunks c schemes)" unfolding m by simp
  finally have 2: "length R = (length schemes + c - 1) div c"
    by (simp only: length_chunks [OF assms(1)])
  have "map request_size R = map length (map ids R)" by (simp add: comp_def request_size_def)
  also have "\<dots> = map length (chunks c schemes)" unfolding m by (simp add: comp_def)
  also have "\<dots> = replicate (length schemes div c) c @
               (if length schemes mod c = 0 then [] else [length schemes mod c])"
    by (rule map_length_chunks [OF assms(1)])
  finally have 3: "map request_size R =
             replicate (length schemes div c) c @
               (if length schemes mod c = 0 then [] else [length schemes mod c])" .
  have "concat (map ids R) = map (\<lambda>s. js_get s ''id'') (concat (chunks c schemes))"
    unfolding m by (simp add: map_concat)
  then have 4: "concat (map ids R) = map (\<lambda>s. js_get s ''id'') schemes"
    by (simp only: concat_chunks [OF assms(1)])
  have 5: "addSchemesToVectorDB E db schemes c = Some (Inr (), db\<lparr>collection := Some (sent @ R)\<rparr>)"
    if "\<forall>j<length R. chroma_add E (sent @ take j R) (R ! j) = None"
    using addSchemes_plan [OF assms(1,2), of E schemes] run_plan_all_ok [OF that] p by simp
  show ?thesis using p 2 3 4 l 5 by blast
qed

text \<open>The instance of the specification: 1,200 records with chunk size 500 and a store
  that accepts every request are sent as three requests of 500, 500 and 200 records.\<close>

theorem batch_chunking_witness:
  "map_option fst (addSchemesToVectorDB sample_env empty_chroma_db (map numbered_scheme [0..<1200]) 500) =
     Some (Inr ()) \<and>
   map_option (sent_sizes \<circ> snd)
     (addSchemesToVectorDB sample_env empty_chroma_db (map numbered_scheme [0..<1200]) 500) =
     Some (Some [500, 500, 200])"
proof -
  have c: "(0::nat) < 500" by simp
  have d: "collection empty_chroma_db = Some []" by (simp add: empty_chroma_db_def)
  have p: "\<forall>s \<in> set (map numbered_scheme [0..<1200]). ingestible s"
    using numbered_ingestible by auto
  have r: "replicate 2 (500::nat) = [500, 500]" by (simp add: numeral_2_eq_2)
  obtain R where
    sz: "map request_size R =
          replicate (length (map numbered_scheme [0..<1200]) div 500) 500 @
            (if length (map numbered_scheme [0..<1200]) mod 500 = 0 then []
             else [length (map numbered_scheme [0..<1200]) mod 500])"
    and run: "(\<forall>j<length R. chroma_add sample_env ([] @ take j R) (R ! j) = None) \<longrightarrow>
              addSchemesToVectorDB sample_env empty_chroma_db (map numbered_scheme [0..<1200]) 500 =
                Some (Inr (), empty_chroma_db\<lparr>collection := Some ([] @ R)\<rparr>)"
    using batch_chunking [OF c d p, of sample_env] by blast
  have a: "\<forall>j<length R. chroma_add sample_env ([] @ take j R) (R ! j) = None"
    by (simp add: sample_env_def)
  have s: "map request_size R = [500, 500, 200]" using sz r by simp
  have "addSchemesToVectorDB sample_env empty_chroma_db (map numbered_scheme [0..<1200]) 500 =
          Some (Inr (), empty_chroma_db\<lparr>collection := Some R\<rparr>)"
    using run a by simp
  then show ?thesis using s by (simp add: sent_sizes_def)
qed

lemma tagged_not_prepared:
  "prepare sample_env tagged_scheme = Inl (TypeError ''join is not a function'')"
  by (simp add: prepare_def createSchemeText_def tagged_scheme_def js_get_def)

text \<open>
  C9 as stated fails, for two reasons. With 1,200 records, chunk size 500 and a store
  that rejects the second request, the call raises after two requests of 500 records;
  the last 200 records are never sent. And a single record whose \<open>tags\<close> is a string
  makes the call raise before any request is sent.
\<close>

theorem batch_chunking_needs_acceptance:
  "map_option fst (addSchemesToVectorDB second_add_fails empty_chroma_db (map numbered_scheme [0..<1200]) 500) =
     Some (Inl (Error ''add failed: connection reset'')) \<and>
   map_option (sent_sizes \<circ> snd)
     (addSchemesToVectorDB second_add_fails empty_chroma_db (map numbered_scheme [0..<1200]) 500) =
     Some (Some [500, 500]) \<and>
   addSchemesToVectorDB sample_env empty_chroma_db [tagged_scheme] 500 =
     Some (Inl (TypeError ''join is not a function''), empty_chroma_db)"
proof -
  let ?xs = "map numbered_scheme [0..<1200]"
  have c: "(0::nat) < 500" by simp
  have d: "collection empty_chroma_db = Some []" by (simp add: empty_chroma_db_def)
  have p: "\<forall>s \<in> set ?xs. ingestible s" using numbered_ingestible by auto
  obtain R where pl: "planned_requests second_add_fails 500 ?xs = map Inr R"
    and m: "map ids R = map (map (\<lambda>s. js_get s ''id'')) (chunks 500 ?xs)"
    using planned_all_built [OF p] by blast
  have "map request_size R = map length (map ids R)" by (simp add: comp_def request_size_def)
  also have "\<dots> = map length (chunks 500 ?xs)" unfolding m by (simp add: comp_def)
  also have "\<dots> = replicate (length ?xs div 500) 500 @
               (if length ?xs mod 500 = 0 then [] else [length ?xs mod 500])"
    by (rule map_length_chunks [OF c])
  also have "\<dots> = [500, 500, 200]" by (simp add: numeral_2_eq_2)
  finally have sz: "map request_size R = [500, 500, 200]" .
  have "length (map request_size R) = length [500, 500, 200 :: nat]" by (simp only: sz)
  then have len: "length R = 3" by simp
  have t: "take (Suc 1) (planned_requests second_add_fails 500 ?xs) = map Inr (take 2 R)"
    unfolding pl by (simp add: take_map numeral_2_eq_2)
  have l2: "length (take 2 R) = Suc 1" using len by simp
  have a: "\<forall>j<1. chroma_add second_add_fails ([] @ take j (take 2 R)) (take 2 R ! j) = None"
    by (simp add: second_add_fails_def)
  have f: "chroma_add second_add_fails ([] @ take 1 (take 2 R)) (take 2 R ! 1) =
             Some (Error ''add failed: connection reset'')"
    using len by (simp add: second_add_fails_def)
  have run: "addSchemesToVectorDB second_add_fails empty_chroma_db ?xs 500 =
               Some (Inl (Error ''add failed: connection reset''),
                     empty_chroma_db\<lparr>collection := Some ([] @ take 2 R)\<rparr>)"
    by (rule batch_abort [OF c d t l2 a f])
  have "map request_size (take 2 R) = take 2 (map request_size R)" by (simp add: take_map)
  also have "\<dots> = [500, 500]" unfolding sz by (simp add: numeral_2_eq_2)
  finally have s2: "map request_size (take 2 R) = [500, 500]" .
  have 1: "map_option fst (addSchemesToVectorDB second_add_fails empty_chroma_db ?xs 500) =
     Some (Inl (Error ''add failed: connection reset''))"
    unfolding run by simp
  have 2: "map_option (sent_sizes \<circ> snd) (addSchemesToVectorDB second_add_fails empty_chroma_db ?xs 500) =
     Some (Some [500, 500])"
    unfolding run using s2 by (simp add: sent_sizes_def)
  have ch: "chunks 500 [tagged_scheme] = [[tagged_scheme]]"
    by (simp add: chunks_step chunks_Nil)
  have "run_plan sample_env [] (planned_requests sample_env 500 [tagged_scheme]) =
          (Inl (TypeError ''join is not a function''), [])"
    unfolding planned_requests_def ch by (simp add: tagged_not_prepared)
  then have 3: "addSchemesToVectorDB sample_env empty_chroma_db [tagged_scheme] 500 =
     Some (Inl (TypeError ''join is not a function''), empty_chroma_db)"
    using addSchemes_plan [OF c d, of sample_env "[tagged_scheme]"]
    by (simp add: empty_chroma_db_def)
  show ?thesis using 1 2 3 by blast
qed


text \<open>
  C8, as amended. On the external path the failure of one chunk's \<open>add\<close> ends the
  batch: when the store rejects the request of chunk \<open>k\<close>, having accepted those
  before it, \<open>addSchemesToVectorDB\<close> raises that error, having sent the requests of
  the chunks up to \<open>k\<close> and none after it; no error is collected and no later chunk
  is tried. \<open>trainVectorDatabase\<close>, called with the same chunk size, then sends one
  single-record request for every record of the whole batch that can be prepared, in
  order, and returns normally; it never raises. For ingestible records the single
  requests carry the identifiers of the records, one each.
\<close>

theorem batch_failure_falls_back:
  "(0 < c \<and> collection db = Some sent \<and>
    take (Suc k) (planned_requests E c schemes) = map Inr R \<and> length R = Suc k \<and>
    (\<forall>j<k. chroma_add E (sent @ take j R) (R ! j) = None) \<and>
    chroma_add E (sent @ take k R) (R ! k) = Some e \<longrightarrow>
      addSchemesToVectorDB E db schemes c = Some (Inl e, db\<lparr>collection := Some (sent @ R)\<rparr>) \<and>
      (c = batch_size E \<longrightarrow>
         trainVectorDatabase E db schemes =
           Some (Inr (), db\<lparr>collection := Some ((sent @ R) @ single_requests E schemes)\<rparr>))) \<and>
   (\<forall>r db'. trainVectorDatabase E db schemes = Some (r, db') \<longrightarrow> r = Inr ()) \<and>
   ((\<forall>s \<in> set schemes. ingestible s) \<longrightarrow>
      map ids (single_requests E schemes) = map (\<lambda>s. [js_get s ''id'']) schemes)"
proof (intro conjI allI impI)
  assume h: "0 < c \<and> collection db = Some sent \<and>
    take (Suc k) (planned_requests E c schemes) = map Inr R \<and> length R = Suc k \<and>
    (\<forall>j<k. chroma_add E (sent @ take j R) (R ! j) = None) \<and>
    chroma_add E (sent @ take k R) (R ! k) = Some e"
  show a: "addSchemesToVectorDB E db schemes c = Some (Inl e, db\<lparr>collection := Some (sent @ R)\<rparr>)"
    using h batch_abort [of c db sent k E schemes R e] by blast
  assume "c = batch_size E"
  then show "trainVectorDatabase E db schemes =
           Some (Inr (), db\<lparr>collection := Some ((sent @ R) @ single_requests E schemes)\<rparr>)"
    using a batch_fallback [of E db schemes e "sent @ R"] by simp
next
  fix r db'
  assume "trainVectorDatabase E db schemes = Some (r, db')"
  then show "r = Inr ()" by (rule trainVectorDatabase_returns)
next
  assume "\<forall>s \<in> set schemes. ingestible s"
  then show "map ids (single_requests E schemes) = map (\<lambda>s. [js_get s ''id'']) schemes"
    by (rule single_requests_ids)
qed

lemma prepare_first_add_fails:
  "\<exists>t. prepare first_add_fails (numbered_scheme i) = Inr (t, [Fin 1, Fin 0], numbered_metadata i)"
  by (simp add: prepare_def createSchemeText_def scheme_metadata_def numbered_scheme_def js_get_def
        generateEmbedding_def first_add_fails_def js_or_def numbered_metadata_def)

text \<open>The first request of the sample run: the records 101 and 102.\<close>

lemma first_failure_plan:
  "\<exists>req. take (Suc 0) (planned_requests first_add_fails 2
              [numbered_scheme 101, numbered_scheme 102, numbered_scheme 103]) = map Inr [req] \<and>
         ids req = [JNum 101, JNum 102]"
proof -
  let ?xs = "[numbered_scheme 101, numbered_scheme 102, numbered_scheme 103]"
  obtain t1 where p1: "prepare first_add_fails (numbered_scheme 101) = Inr (t1, [Fin 1, Fin 0], numbered_metadata 101)"
    using prepare_first_add_fails by blast
  obtain t2 where p2: "prepare first_add_fails (numbered_scheme 102) = Inr (t2, [Fin 1, Fin 0], numbered_metadata 102)"
    using prepare_first_add_fails by blast
  define req where "req = \<lparr>documents = [t1, t2], metadatas = [numbered_metadata 101, numbered_metadata 102],
                             ids = [JNum 101, JNum 102], embeddings = [[Fin 1, Fin 0], [Fin 1, Fin 0]]\<rparr>"
  have i1: "js_get (numbered_scheme 101) ''id'' = JNum 101" and i2: "js_get (numbered_scheme 102) ''id'' = JNum 102"
    by (simp_all add: numbered_scheme_def js_get_def)
  have b: "build_batch first_add_fails [numbered_scheme 101, numbered_scheme 102] empty_request = Inr req"
    unfolding req_def by (simp add: p1 p2 i1 i2 empty_request_def)
  have ch: "chunks 2 ?xs = [numbered_scheme 101, numbered_scheme 102] # chunks 2 [numbered_scheme 103]"
    by (subst chunks_step) (simp_all add: numeral_2_eq_2)
  have "take (Suc 0) (planned_requests first_add_fails 2 ?xs) = map Inr [req]"
    unfolding planned_requests_def ch by (simp add: b del: build_batch.simps)
  moreover have "ids req = [JNum 101, JNum 102]" by (simp add: req_def)
  ultimately show ?thesis by blast
qed

lemma first_failure_run:
  "\<exists>req. addSchemesToVectorDB first_add_fails empty_chroma_db
            [numbered_scheme 101, numbered_scheme 102, numbered_scheme 103] 2 =
            Some (Inl (Error ''add failed: payload rejected''), empty_chroma_db\<lparr>collection := Some [req]\<rparr>) \<and>
         ids req = [JNum 101, JNum 102]"
proof -
  let ?xs = "[numbered_scheme 101, numbered_scheme 102, numbered_scheme 103]"
  obtain req where t: "take (Suc 0) (planned_requests first_add_fails 2 ?xs) = map Inr [req]"
    and i: "ids req = [JNum 101, JNum 102]"
    using first_failure_plan by blast
  have c: "(0::nat) < 2" by simp
  have d: "collection empty_chroma_db = Some []" by (simp add: empty_chroma_db_def)
  have l: "length [req] = Suc 0" by simp
  have a: "\<forall>j<0. chroma_add first_add_fails ([] @ take j [req]) ([req] ! j) = None" by simp
  have f: "chroma_add first_add_fails ([] @ take 0 [req]) ([req] ! 0) = Some (Error ''add failed: payload rejected'')"
    by (simp add: first_add_fails_def)
  have "addSchemesToVectorDB first_add_fails empty_chroma_db ?xs 2 =
          Some (Inl (Error ''add failed: payload rejected''), empty_chroma_db\<lparr>collection := Some ([] @ [req])\<rparr>)"
    by (rule batch_abort [OF c d t l a f])
  then show ?thesis using i by auto
qed

text \<open>
  C8 as stated fails: with chunk size 2 and a store that rejects the first request, the
  batch call for three records returns the error after one request; the chunk holding
  the third record is never sent and no error list is built.
\<close>

theorem batch_first_failure_aborts:
  "map_option fst (addSchemesToVectorDB first_add_fails empty_chroma_db
       [numbered_scheme 101, numbered_scheme 102, numbered_scheme 103] 2) =
     Some (Inl (Error ''add failed: payload rejected'')) \<and>
   map_option (sent_ids \<circ> snd) (addSchemesToVectorDB first_add_fails empty_chroma_db
       [numbered_scheme 101, numbered_scheme 102, numbered_scheme 103] 2) =
     Some (Some [[JNum 101, JNum 102]])"
proof -
  obtain req where "addSchemesToVectorDB first_add_fails empty_chroma_db
            [numbered_scheme 101, numbered_scheme 102, numbered_scheme 103] 2 =
            Some (Inl (Error ''add failed: payload rejected''), empty_chroma_db\<lparr>collection := Some [req]\<rparr>)"
    and "ids req = [JNum 101, JNum 102]"
    using first_failure_run by blast
  then show ?thesis by (simp add: sent_ids_def)
qed

text \<open>The same run seen from \<open>trainVectorDatabase\<close>: after the rejected request for the
  records 101 and 102 it sends the three records one by one and returns normally.\<close>

theorem batch_failure_falls_back_witness:
  "map_option fst (trainVectorDatabase first_add_fails empty_chroma_db
       [numbered_scheme 101, numbered_scheme 102, numbered_scheme 103]) = Some (Inr ()) \<and>
   map_option (sent_ids \<circ> snd) (trainVectorDatabase first_add_fails empty_chroma_db
       [numbered_scheme 101, numbered_scheme 102, numbered_scheme 103]) =
     Some (Some [[JNum 101, JNum 102], [JNum 101], [JNum 102], [JNum 103]])"
proof -
  let ?xs = "[numbered_scheme 101, numbered_scheme 102, numbered_scheme 103]"
  obtain req where t: "take (Suc 0) (planned_requests first_add_fails 2 ?xs) = map Inr [req]"
    and i: "ids req = [JNum 101, JNum 102]"
    using first_failure_plan by blast
  have h: "0 < (2::nat) \<and> collection empty_chroma_db = Some [] \<and>
    take (Suc 0) (planned_requests first_add_fails 2 ?xs) = map Inr [req] \<and> length [req] = Suc 0 \<and>
    (\<forall>j<0. chroma_add first_add_fails ([] @ take j [req]) ([req] ! j) = None) \<and>
    chroma_add first_add_fails ([] @ take 0 [req]) ([req] ! 0) = Some (Error ''add failed: payload rejected'')"
    using t by (simp add: empty_chroma_db_def first_add_fails_def)
  have b: "2 = batch_size first_add_fails" by (simp add: first_add_fails_def)
  have p: "\<forall>s \<in> set ?xs. ingestible s" using numbered_ingestible by simp
  note inst = batch_failure_falls_back
    [of 2 empty_chroma_db "[]" 0 first_add_fails ?xs "[req]" "Error ''add failed: payload rejected''"]
  have run: "trainVectorDatabase first_add_fails empty_chroma_db ?xs =
           Some (Inr (), empty_chroma_db\<lparr>collection := Some (([] @ [req]) @ single_requests first_add_fails ?xs)\<rparr>)"
    using inst h b by blast
  have s: "map ids (single_requests first_add_fails ?xs) = map (\<lambda>s. [js_get s ''id'']) ?xs"
    using inst p by blast
  have 1: "map_option fst (trainVectorDatabase first_add_fails empty_chroma_db ?xs) = Some (Inr ())"
    unfolding run by simp
  have 2: "map_option (sent_ids \<circ> snd) (trainVectorDatabase first_add_fails empty_chroma_db ?xs) =
     Some (Some [[JNum 101, JNum 102], [JNum 101], [JNum 102], [JNum 103]])"
    unfolding run using i s by (simp add: sent_ids_def numbered_scheme_def js_get_def)
  show ?thesis using 1 2 by blast
qed


subsection \<open>Scheduler\<close>

lemma reachable_invariant:
  assumes "reachable s"
  shows "length (active s) \<le> 1 \<and> (isTraining s \<longleftrightarrow> active s \<noteq> [])"
  using assms
proof (induction rule: reachable.induct)
  case init
  show ?case by (simp add: initial_scheduler_def)
next
  case (force s)
  then show ?case by (auto simp: forceTraining_enter_def)
next
  case (sched s)
  then show ?case by (auto simp: performScheduledTraining_enter_def)
next
  case (exit s k finished)
  then obtain x where "active s = [x]"
    by (cases "active s") (auto simp: Suc_le_eq)
  then show ?case using exit by (auto simp: run_exit_def)
qed

text \<open>
  C4. In every reachable state of the scheduler at most one run is in flight, and the
  flag \<open>isTraining\<close> is set exactly while one is. While it is set, a forced trigger is
  rejected with the error \<open>Training already in progress\<close> and a scheduled trigger is
  skipped; both leave the state as it is, so no second run starts and nothing is kept
  for later. While it is clear, a trigger starts the one run in flight.
\<close>

theorem scheduler_mutual_exclusion:
  assumes "reachable s"
  shows "length (active s) \<le> 1 \<and>
         (isTraining s \<longleftrightarrow> active s \<noteq> []) \<and>
         (isTraining s \<longrightarrow>
            forceTraining_enter s = (Rejected (Error ''Training already in progress''), s) \<and>
            performScheduledTraining_enter s = (Skipped, s)) \<and>
         (\<not> isTraining s \<longrightarrow>
            fst (forceTraining_enter s) = Started \<and>
            active (snd (forceTraining_enter s)) = [Forced] \<and>
            fst (performScheduledTraining_enter s) = Started \<and>
            active (snd (performScheduledTraining_enter s)) = [Scheduled])"
  using reachable_invariant [OF assms]
  by (auto simp: forceTraining_enter_def performScheduledTraining_enter_def)

theorem scheduler_mutual_exclusion_witness:
  "reachable (snd (performScheduledTraining_enter initial_scheduler)) \<and>
   isTraining (snd (performScheduledTraining_enter initial_scheduler)) \<and>
   fst (forceTraining_enter (snd (performScheduledTraining_enter initial_scheduler))) =
     Rejected (Error ''Training already in progress'') \<and>
   fst (performScheduledTraining_enter (snd (performScheduledTraining_enter initial_scheduler))) = Skipped \<and>
   active (snd (forceTraining_enter (snd (performScheduledTraining_enter initial_scheduler)))) = [Scheduled]"
proof -
  have r: "reachable (snd (performScheduledTraining_enter initial_scheduler))"
    by (rule reachable.sched) (rule reachable.init)
  have t: "isTraining (snd (performScheduledTraining_enter initial_scheduler))"
    by (simp add: performScheduledTraining_enter_def initial_scheduler_def)
  have a: "active (snd (performScheduledTraining_enter initial_scheduler)) = [Scheduled]"
    by (simp add: performScheduledTraining_enter_def initial_scheduler_def)
  show ?thesis
    using scheduler_mutual_exclusion [OF r] r t a by simp
qed


subsection \<open>The training pipeline\<close>











subsection \<open>Retraining\<close>

lemma json_copy_undefined: "json_copy v = JUndefined \<longleftrightarrow> v = JUndefined"
  by (cases v) simp_all

lemma js_get_json_copy_obj:
  assumes "js_get c k = JStr v"
  shows "js_get (json_copy_obj c) k = JStr v"
  using assms
proof (induction c)
  case Nil
  then show ?case by (simp add: js_get_def)
next
  case (Cons a c)
  obtain k' v' where a: "a = (k', v')" by (cases a)
  show ?case
  proof (cases "k' = k")
    case True
    then have "v' = JStr v" using Cons.prems a by (simp add: js_get_def)
    then show ?thesis using True a by (simp add: js_get_def json_copy_obj_def)
  next
    case False
    then have "js_get c k = JStr v" using Cons.prems a by (simp add: js_get_def)
    then have "js_get (json_copy_obj c) k = JStr v" by (rule Cons.IH)
    then show ?thesis using False a by (simp add: js_get_def json_copy_obj_def)
  qed
qed

lemma find_own_copy:
  assumes "c \<in> set ys"
      and "distinct (map (\<lambda>s. js_get s ''id'') ys)"
      and "\<forall>s \<in> set ys. is_string (js_get s ''id'')"
  shows "find (\<lambda>s. strict_equals (js_get s ''id'') (js_get c ''id'')) (map json_copy_obj ys) =
           Some (json_copy_obj c)"
  using assms
proof (induction ys)
  case Nil
  then show ?case by simp
next
  case (Cons y ys)
  obtain a where a: "js_get y ''id'' = JStr a"
    using Cons.prems(3) by (cases "js_get y ''id''") auto
  have ya: "js_get (json_copy_obj y) ''id'' = JStr a" using a by (rule js_get_json_copy_obj)
  show ?case
  proof (cases "c = y")
    case True
    then show ?thesis using a ya by simp
  next
    case False
    then have cin: "c \<in> set ys" using Cons.prems(1) by simp
    obtain b where b: "js_get c ''id'' = JStr b"
      using Cons.prems(3) cin by (cases "js_get c ''id''") auto
    have "js_get c ''id'' \<in> (\<lambda>s. js_get s ''id'') ` set ys" using cin by blast
    then have "a \<noteq> b" using Cons.prems(2) a b by auto
    moreover have "find (\<lambda>s. strict_equals (js_get s ''id'') (js_get c ''id'')) (map json_copy_obj ys) =
           Some (json_copy_obj c)"
      using Cons.IH [OF cin] Cons.prems(2,3) by simp
    ultimately show ?thesis using ya b by simp
  qed
qed

lemma changed_loop_own_copy:
  assumes "set xs \<subseteq> set ys"
      and "distinct (map (\<lambda>s. js_get s ''id'') ys)"
      and "\<forall>s \<in> set ys. is_string (js_get s ''id'')"
      and "\<forall>s \<in> set ys. is_string (js_get s ''lastUpdated'')"
  shows "changed_loop xs (map json_copy_obj ys) = False"
  using assms(1)
proof (induction xs)
  case Nil
  show ?case by simp
next
  case (Cons c xs)
  have cin: "c \<in> set ys" using Cons.prems by simp
  obtain t where t: "js_get c ''lastUpdated'' = JStr t"
    using assms(4) cin by (cases "js_get c ''lastUpdated''") auto
  have "js_get (json_copy_obj c) ''lastUpdated'' = JStr t" using t by (rule js_get_json_copy_obj)
  moreover have "changed_loop xs (map json_copy_obj ys) = False" using Cons by simp
  ultimately show ?case
    using find_own_copy [OF cin assms(2,3)] t by simp
qed

lemma cleanedScheme_id_lastUpdated:
  assumes "cleanedScheme U clk i s = Inr c"
  shows "js_get c ''id'' = js_or (js_get s ''id'') (JStr (fresh_id clk i)) \<and>
         js_get c ''lastUpdated'' = JStr (now_iso clk i)"
proof (cases "trim U (js_get s ''name'')")
  case (Inl e)
  then show ?thesis using assms by (simp add: cleanedScheme_def)
next
  case (Inr t)
  show ?thesis
    using assms unfolding cleanedScheme_def Inr by (auto simp: js_get_def)
qed

lemma cleaned_nth:
  assumes m: "map Inr out = map (\<lambda>i. cleanedScheme U clk i (xs ! i)) (first_seen U xs)"
      and p: "p < length out"
  shows "first_seen U xs ! p < length xs \<and>
         cleanedScheme U clk (first_seen U xs ! p) (xs ! (first_seen U xs ! p)) = Inr (out ! p)"
proof -
  have len: "length out = length (first_seen U xs)"
    using arg_cong [OF m, of length] by simp
  then have p': "p < length (first_seen U xs)" using p by simp
  have "(map Inr out :: (error + jsobj) list) ! p = Inr (out ! p)" using p by simp
  moreover have "map (\<lambda>i. cleanedScheme U clk i (xs ! i)) (first_seen U xs) ! p =
                 cleanedScheme U clk (first_seen U xs ! p) (xs ! (first_seen U xs ! p))"
    using p' by simp
  ultimately have c: "cleanedScheme U clk (first_seen U xs ! p) (xs ! (first_seen U xs ! p)) = Inr (out ! p)"
    using arg_cong [OF m, of "\<lambda>l. l ! p"] by simp
  have "first_seen U xs ! p \<in> set (first_seen U xs)" using p' by simp
  then have "first_seen U xs ! p < length xs" by (rule first_seen_bound)
  then show ?thesis using c by simp
qed

lemma cleaned_ids:
  assumes wf: "\<forall>s \<in> set xs. has_name_and_category s"
      and ids: "\<forall>s \<in> set xs. \<exists>a. a \<noteq> [] \<and> js_get s ''id'' = JStr a"
      and dist: "distinct (map (\<lambda>s. js_get s ''id'') xs)"
      and out: "cleanAndDeduplicateData U clk xs = Inr fresh"
  shows "distinct (map (\<lambda>s. js_get s ''id'') fresh) \<and>
         (\<forall>s \<in> set fresh. is_string (js_get s ''id'')) \<and>
         (\<forall>s \<in> set fresh. is_string (js_get s ''lastUpdated''))"
proof -
  have m: "map Inr fresh = map (\<lambda>i. cleanedScheme U clk i (xs ! i)) (first_seen U xs)"
    using cleanAndDeduplicateData_char [OF wf, of U clk] out by simp
  have len: "length fresh = length (first_seen U xs)"
    using arg_cong [OF m, of length] by simp
  have idj: "js_get (fresh ! j) ''id'' = js_get (xs ! (first_seen U xs ! j)) ''id''"
    and luj: "is_string (js_get (fresh ! j) ''lastUpdated'')"
    and sj: "is_string (js_get (fresh ! j) ''id'')"
    if j: "j < length fresh" for j
  proof -
    have b: "first_seen U xs ! j < length xs"
      and c: "cleanedScheme U clk (first_seen U xs ! j) (xs ! (first_seen U xs ! j)) = Inr (fresh ! j)"
      using cleaned_nth [OF m j] by simp_all
    have "xs ! (first_seen U xs ! j) \<in> set xs" using b by simp
    then obtain a where a: "a \<noteq> []" "js_get (xs ! (first_seen U xs ! j)) ''id'' = JStr a"
      using ids by blast
    show e: "js_get (fresh ! j) ''id'' = js_get (xs ! (first_seen U xs ! j)) ''id''"
      using cleanedScheme_id_lastUpdated [OF c] a by (simp add: js_or_def)
    show "is_string (js_get (fresh ! j) ''lastUpdated'')"
      using cleanedScheme_id_lastUpdated [OF c] by simp
    show "is_string (js_get (fresh ! j) ''id'')" using e a by simp
  qed
  have e: "map (\<lambda>s. js_get s ''id'') fresh = map (\<lambda>i. js_get (xs ! i) ''id'') (first_seen U xs)"
  proof (rule nth_equalityI)
    show "length (map (\<lambda>s. js_get s ''id'') fresh) = length (map (\<lambda>i. js_get (xs ! i) ''id'') (first_seen U xs))"
      using len by simp
    fix p assume "p < length (map (\<lambda>s. js_get s ''id'') fresh)"
    then have p: "p < length fresh" by simp
    then show "map (\<lambda>s. js_get s ''id'') fresh ! p = map (\<lambda>i. js_get (xs ! i) ''id'') (first_seen U xs) ! p"
      using idj [OF p] len by simp
  qed
  have inj: "inj_on (\<lambda>i. js_get (xs ! i) ''id'') (set (first_seen U xs))"
  proof (rule inj_onI)
    fix i j
    assume i: "i \<in> set (first_seen U xs)" and j: "j \<in> set (first_seen U xs)"
       and eq: "js_get (xs ! i) ''id'' = js_get (xs ! j) ''id''"
    have il: "i < length xs" and jl: "j < length xs"
      using i j first_seen_bound by blast+
    have "map (\<lambda>s. js_get s ''id'') xs ! i = map (\<lambda>s. js_get s ''id'') xs ! j"
      using eq il jl by simp
    moreover have "i < length (map (\<lambda>s. js_get s ''id'') xs)" "j < length (map (\<lambda>s. js_get s ''id'') xs)"
      using il jl by simp_all
    ultimately show "i = j" using dist by (simp only: nth_eq_iff_index_eq)
  qed
  have df: "distinct (first_seen U xs)" by (simp add: first_seen_def)
  have d: "distinct (map (\<lambda>s. js_get s ''id'') fresh)"
    unfolding e using inj df by (simp add: distinct_map)
  have s1: "is_string (js_get s ''id'')" and s2: "is_string (js_get s ''lastUpdated'')"
    if mem: "s \<in> set fresh" for s
  proof -
    obtain j where j: "j < length fresh" "s = fresh ! j"
      using mem unfolding in_set_conv_nth by blast
    show "is_string (js_get s ''id'')" using sj [OF j(1)] j(2) by simp
    show "is_string (js_get s ''lastUpdated'')" using luj [OF j(1)] j(2) by simp
  qed
  show ?thesis using d s1 s2 by blast
qed

text \<open>Whenever the sources deliver records with string name and category and pairwise
  different, non-empty string ids, and the files can be written, \<open>retrainModel\<close>
  returns the no-op result, from any state and whatever the clock shows: the "existing"
  data it loads is the copy of the fresh data that \<open>fetchAllSchemeData\<close> has just
  written. The index and the metrics document are left as they were.\<close>

lemma retrainModel_skips_every_call:
  assumes wf: "\<forall>s \<in> set (myscheme_data S (fetch_count w) @ nsp_data S @ pmkisan_data S).
                 has_name_and_category s \<and> (\<exists>a. a \<noteq> [] \<and> js_get s ''id'' = JStr a)"
      and dist: "distinct (map (\<lambda>s. js_get s ''id'')
                   (myscheme_data S (fetch_count w) @ nsp_data S @ pmkisan_data S))"
      and fs: "\<forall>name. fs_error S name = None"
  shows "\<exists>w1. retrainModel S w = Some (Inr NoRetrainingNeeded, w1) \<and>
              training_results_json w1 = training_results_json w \<and>
              vdb w1 = vdb w \<and>
              fetch_count w1 = Suc (fetch_count w)"
proof -
  let ?xs = "myscheme_data S (fetch_count w) @ nsp_data S @ pmkisan_data S"
  let ?clk = "fetch_clock S (fetch_count w)"
  let ?U = "builtins (index_env S)"
  have wf1: "\<forall>s \<in> set ?xs. has_name_and_category s" using wf by blast
  have ids: "\<forall>s \<in> set ?xs. \<exists>a. a \<noteq> [] \<and> js_get s ''id'' = JStr a" using wf by blast
  obtain fresh where c: "cleanAndDeduplicateData ?U ?clk ?xs = Inr fresh"
    using cleanAndDeduplicateData_char [OF wf1] by blast
  define w1 where "w1 = w\<lparr>fetch_count := Suc (fetch_count w),
                           scraped_schemes_json := Some (map json_copy_obj fresh),
                           scraping_metadata_json := Some (length fresh, now_iso ?clk (length fresh))\<rparr>"
  have f: "fetchAllSchemeData S w = (Inr fresh, w1)"
    using c fs by (simp add: fetchAllSchemeData_def saveDataToFile_def Let_def w1_def)
  have l: "loadScrapedData w1 = map json_copy_obj fresh"
    by (simp add: loadScrapedData_def w1_def)
  have p: "distinct (map (\<lambda>s. js_get s ''id'') fresh) \<and>
         (\<forall>s \<in> set fresh. is_string (js_get s ''id'')) \<and>
         (\<forall>s \<in> set fresh. is_string (js_get s ''lastUpdated''))"
    using cleaned_ids [OF wf1 ids dist c] .
  have "changed_loop fresh (map json_copy_obj fresh) = False"
    using changed_loop_own_copy [of fresh fresh] p by simp
  then have h: "hasDataChanged fresh (loadScrapedData w1) = False"
    by (simp add: hasDataChanged_def l)
  have "retrainModel S w = Some (Inr NoRetrainingNeeded, w1)"
    using f h by (simp add: retrainModel_def Let_def)
  moreover have "training_results_json w1 = training_results_json w" "vdb w1 = vdb w"
    "fetch_count w1 = Suc (fetch_count w)"
    by (simp_all add: w1_def)
  ultimately show ?thesis by blast
qed

text \<open>
  C2 fails on the code. No document has been persisted, the index is empty, the portal
  cannot be reached and the two fixed sources deliver one scheme each. The first call of
  \<open>retrainModel\<close> already returns the no-op result without running the pipeline (no
  metrics document is written, the index stays empty), and so does the second.
\<close>

theorem retrainModel_first_call_skips:
  "(case retrainModel sample_sys fresh_world of
      None \<Rightarrow> False
    | Some (r1, w1) \<Rightarrow>
        r1 = Inr NoRetrainingNeeded \<and>
        training_results_json w1 = None \<and>
        inMemoryVectors (vdb w1) = [] \<and>
        (case retrainModel sample_sys w1 of
           None \<Rightarrow> False
         | Some (r2, w2) \<Rightarrow> r2 = Inr NoRetrainingNeeded))"
proof -
  have src: "\<forall>s \<in> set (myscheme_data sample_sys n @ nsp_data sample_sys @ pmkisan_data sample_sys).
                 has_name_and_category s \<and> (\<exists>a. a \<noteq> [] \<and> js_get s ''id'' = JStr a)" for n
    by (simp add: sample_sys_def has_name_and_category_def nsp_merit_def pm_kisan_def js_get_def)
  have dist: "distinct (map (\<lambda>s. js_get s ''id'')
                (myscheme_data sample_sys n @ nsp_data sample_sys @ pmkisan_data sample_sys))" for n
    by (simp add: sample_sys_def nsp_merit_def pm_kisan_def js_get_def)
  have fs: "\<forall>name. fs_error sample_sys name = None" by (simp add: sample_sys_def)
  obtain w1 where 1: "retrainModel sample_sys fresh_world = Some (Inr NoRetrainingNeeded, w1)"
    and r: "training_results_json w1 = training_results_json fresh_world"
    and v: "vdb w1 = vdb fresh_world"
    using retrainModel_skips_every_call [OF src dist fs] by blast
  obtain w2 where 2: "retrainModel sample_sys w1 = Some (Inr NoRetrainingNeeded, w2)"
    using retrainModel_skips_every_call [OF src dist fs] by blast
  have "training_results_json w1 = None" "inMemoryVectors (vdb w1) = []"
    using r v by (simp_all add: fresh_world_def empty_memory_db_def)
  then show ?thesis using 1 2 by simp
qed

end
